theory Spec2Isabelle
  imports Main "HOL-Library.AList" "HOL-Library.Char_ord" "HOL-Library.List_Lexorder"
begin

section \<open>Data model\<close>

text \<open>
  The engine of VHub-Server has two storage backends with the same operations:
  \<^verbatim>\<open>implementations/graph_db_impl.py\<close> (a directory per repository holding
  \<^verbatim>\<open>graph.json\<close> and an \<^verbatim>\<open>objects\<close> directory) and
  \<^verbatim>\<open>implementations/sqlite_fs_impl.py\<close> (a directory per repository holding the
  database \<^verbatim>\<open>vcs.db\<close>).

  Conventions of the embedding.
  \<^item> A Python \<^verbatim>\<open>str\<close> is a \<open>string\<close>; text is identified with its UTF-8 bytes.
  \<^item> A Python \<^verbatim>\<open>dict\<close> (and a JSON object) is an association list in insertion
    order whose keys are pairwise distinct; \<open>map_of\<close> reads it and \<open>AList.update\<close>
    is \<^verbatim>\<open>d[k] = v\<close> (replace in place, else append). A loop over the items of a
    dict that assigns \<^verbatim>\<open>out[k] = f(v)\<close> into a fresh dict is written \<open>map\<close>.
  \<^item> A directory is a map from names to entries; a table of the database is the list
    of its rows in insertion order, keyed by its primary key.
  \<^item> An exception is a value of \<open>exn\<close>; every handler
    \<^verbatim>\<open>except Exception\<close> of the source turns it into the response of status 500.
  \<^item> Every operation returns its response together with the file system it leaves.
  \<^item> The request body is typed: the keys of a commit descriptor are all present.
    Faults of the disk or the database engine are not modelled.
\<close>

datatype exn = KeyError | TypeError | AttributeError | FileNotFoundError | IntegrityError

datatype error =
    InvalidName
  | RepoNotFound
  | TargetExists
  | ParentNotFound
  | ServerError exn

datatype push_ok = AlreadyExists | Pushed nat

datatype status = added | modified | deleted

record file_info =
  hash :: string
  content :: "string option"

record commit_meta =
  message :: string
  author :: string
  timestamp :: string
  parent_id :: "string option"

text \<open>A commit as \<^verbatim>\<open>graph.json\<close> stores it: \<open>files\<close> maps a path to a blob hash.\<close>

record commit_data = commit_meta +
  files :: "(string \<times> string) list"

text \<open>The body of a push request; \<open>req_files\<close> is its key \<^verbatim>\<open>files\<close>.\<close>

record commit_desc = commit_meta +
  repo_name :: string
  commit_id :: string
  req_files :: "(string \<times> file_info) list"

record change =
  status :: status
  diff :: "string option"
  previous_hash :: "string option"
  current_hash :: "string option"

record commit_summary = commit_meta +
  summary_id :: string
  change_count :: nat

record graph_data =
  commits :: "(string \<times> commit_data) list"
  changes :: "(string \<times> (string \<times> change) list) list"
  branches :: "(string \<times> string option) list"
  HEAD :: "string option"

text \<open>
  A repository directory of the graph backend: \<^verbatim>\<open>graph.json\<close> when it exists, and
  the files below \<^verbatim>\<open>objects/\<close>. The object of hash \<open>h\<close> is the file
  \<^verbatim>\<open>objects/h[:2]/h[2:]\<close>, which \<open>h\<close> determines (a SHA-1 hex digest has 40
  characters), so the object files are keyed by \<open>h\<close>.
\<close>

record repo_dir =
  graph_json :: "graph_data option"
  objects :: "string \<rightharpoonup> string"

type_synonym graph_fs = "string \<rightharpoonup> repo_dir"

text \<open>The tables of \<^verbatim>\<open>vcs.db\<close>, each keyed by its primary key.\<close>

record sqlite_db =
  commits_table :: "(string \<times> commit_meta) list"
  files_table :: "((string \<times> string) \<times> file_info) list"
  changes_table :: "((string \<times> string) \<times> change) list"

type_synonym sqlite_fs = "string \<rightharpoonup> sqlite_db"

section \<open>Library functions the code calls\<close>

text \<open>
  \<^verbatim>\<open>hashlib.sha1(b).hexdigest()\<close>, \<^verbatim>\<open>str.splitlines\<close> and
  \<^verbatim>\<open>difflib.unified_diff(a, b, fromfile, tofile, lineterm='')\<close> (with its default of
  three lines of context) belong to Python's library, not to the repository: they are
  parameters of the model.
\<close>

record pylib =
  sha1_hexdigest :: "string \<Rightarrow> string"
  splitlines :: "string \<Rightarrow> string list"
  unified_diff :: "string list \<Rightarrow> string list \<Rightarrow> string \<Rightarrow> string \<Rightarrow> string list"

text \<open>\<^verbatim>\<open>'\n'.join(lines)\<close>\<close>

fun join_lines :: "string list \<Rightarrow> string" where
  "join_lines [] = []"
| "join_lines [l] = l"
| "join_lines (l # m # ls) = l @ CHR 0x0A # join_lines (m # ls)"

text \<open>
  Reading a file opened with \<^verbatim>\<open>open(path, 'r')\<close>: universal newlines, every
  \<^verbatim>\<open>\r\n\<close> and every single \<^verbatim>\<open>\r\<close> is read as \<^verbatim>\<open>\n\<close>. Writing with
  \<^verbatim>\<open>open(path, 'w')\<close> on POSIX stores the text as it is.
\<close>

fun universal_newlines :: "string \<Rightarrow> string" where
  "universal_newlines [] = []"
| "universal_newlines [c] = (if c = CHR 0x0D then [CHR 0x0A] else [c])"
| "universal_newlines (c # d # cs) =
     (if c = CHR 0x0D \<and> d = CHR 0x0A then CHR 0x0A # universal_newlines cs
      else if c = CHR 0x0D then CHR 0x0A # universal_newlines (d # cs)
      else c # universal_newlines (d # cs))"

text \<open>Python's truth value of an optional string: \<^verbatim>\<open>None\<close> and \<^verbatim>\<open>''\<close> are false.\<close>

definition truthy :: "string option \<Rightarrow> bool" where
  "truthy p = (case p of None \<Rightarrow> False | Some s \<Rightarrow> s \<noteq> [])"

text \<open>\<^verbatim>\<open>utils/hash_utils.py\<close>\<close>

definition calculate_hash :: "pylib \<Rightarrow> string \<Rightarrow> string" where
  "calculate_hash L c = sha1_hexdigest L c"

section \<open>Repository names\<close>

definition name_char :: "char \<Rightarrow> bool" where
  "name_char c \<longleftrightarrow>
     (CHR ''a'' \<le> c \<and> c \<le> CHR ''z'') \<or> (CHR ''A'' \<le> c \<and> c \<le> CHR ''Z'') \<or>
     (CHR ''0'' \<le> c \<and> c \<le> CHR ''9'') \<or> c = CHR ''_'' \<or> c = CHR ''-''"

text \<open>
  \<^verbatim>\<open>re.match(r'^[a-zA-Z0-9_-]+$', repo_name)\<close>: Python's \<^verbatim>\<open>$\<close> also matches
  before a newline that ends the string.
\<close>

definition validate_repo_name :: "string \<Rightarrow> bool" where
  "validate_repo_name n \<longleftrightarrow>
     (let s = (if n \<noteq> [] \<and> last n = CHR 0x0A then butlast n else n)
      in s \<noteq> [] \<and> list_all name_char s)"

definition space_char :: "char \<Rightarrow> bool" where
  "space_char c \<longleftrightarrow> c \<in> {CHR 0x09, CHR 0x0A, CHR 0x0B, CHR 0x0C, CHR 0x0D,
                          CHR 0x1C, CHR 0x1D, CHR 0x1E, CHR 0x1F, CHR 0x20}"

definition strip :: "string \<Rightarrow> string" where
  "strip s = rev (dropWhile space_char (rev (dropWhile space_char s)))"

text \<open>
  \<^verbatim>\<open>utils/path_utils.py\<close>: \<^verbatim>\<open>re.sub(r'[^\w\s\-.]', '', path).strip()\<close>, on ASCII
  text (every name that passes \<open>validate_repo_name\<close> is ASCII).
\<close>

definition sanitize_path :: "string \<Rightarrow> string" where
  "sanitize_path p =
     strip (filter (\<lambda>c. (name_char c \<and> c \<noteq> CHR ''-'') \<or> space_char c \<or>
                           c = CHR ''-'' \<or> c = CHR ''.'') p)"

text \<open>The directory of a repository below the backend's base directory.\<close>

definition get_repo_path :: "string \<Rightarrow> string" where
  "get_repo_path n = sanitize_path n"

section \<open>The graph backend\<close>

definition empty_graph :: graph_data where
  "empty_graph = \<lparr>commits = [], changes = [], branches = [(''main'', None)], HEAD = None\<rparr>"

definition new_repo_dir :: repo_dir where
  "new_repo_dir = \<lparr>graph_json = Some empty_graph, objects = Map.empty\<rparr>"

text \<open>
  \<open>get_objects_dir\<close> runs \<^verbatim>\<open>os.makedirs(objects_dir, exist_ok=True)\<close>: it creates
  the repository directory, without \<^verbatim>\<open>graph.json\<close>, when there is none.
\<close>

definition get_objects_dir :: "graph_fs \<Rightarrow> string \<Rightarrow> graph_fs" where
  "get_objects_dir fs n =
     (case fs (get_repo_path n) of
        None \<Rightarrow> fs(get_repo_path n \<mapsto> \<lparr>graph_json = None, objects = Map.empty\<rparr>)
      | Some r \<Rightarrow> fs)"

text \<open>
  \<open>get_object_content\<close> and \<open>store_object\<close> on the directory of a repository that
  exists (where push and pull call them it does, so that \<open>get_objects_dir\<close>
  creates nothing there).
\<close>

definition get_object_content :: "repo_dir \<Rightarrow> string \<Rightarrow> string option" where
  "get_object_content r h = map_option universal_newlines (objects r h)"

definition store_object :: "pylib \<Rightarrow> repo_dir \<Rightarrow> string \<Rightarrow> string \<times> repo_dir" where
  "store_object L r c =
     (let object_hash = calculate_hash L c
      in if objects r object_hash = None
         then (object_hash, r\<lparr>objects := (objects r)(object_hash \<mapsto> c)\<rparr>)
         else (object_hash, r))"

definition create_repo_graph :: "graph_fs \<Rightarrow> string \<Rightarrow> (error + bool) \<times> graph_fs" where
  "create_repo_graph fs n =
     (if \<not> validate_repo_name n then (Inl InvalidName, fs)
      else case fs (get_repo_path n) of
             Some r \<Rightarrow> (Inr False, fs)
           | None \<Rightarrow> (Inr True, fs(get_repo_path n \<mapsto> new_repo_dir)))"

subsection \<open>calculate_changes\<close>

text \<open>The body of the loop over \<^verbatim>\<open>all_paths\<close>; \<open>None\<close> when no record is written.\<close>

definition change_for_graph ::
  "pylib \<Rightarrow> (string \<times> file_info) list \<Rightarrow> (string \<times> file_info) list \<Rightarrow> string
     \<Rightarrow> exn + change option" where
  "change_for_graph L parent_files current_files file_path =
     (case (map_of current_files file_path, map_of parent_files file_path) of
        (Some cur, None) \<Rightarrow>
          Inr (Some \<lparr>status = added, diff = None, previous_hash = None,
                      current_hash = Some (hash cur)\<rparr>)
      | (None, Some par) \<Rightarrow>
          Inr (Some \<lparr>status = deleted, diff = None, previous_hash = Some (hash par),
                      current_hash = None\<rparr>)
      | (None, None) \<Rightarrow> Inl KeyError
      | (Some cur, Some par) \<Rightarrow>
          if hash cur \<noteq> hash par then
            (case content par of
               None \<Rightarrow> Inl AttributeError
             | Some old \<Rightarrow>
                (case content cur of
                   None \<Rightarrow> Inl AttributeError
                 | Some new \<Rightarrow>
                    Inr (Some \<lparr>status = modified,
                                diff = Some (join_lines (unified_diff L (splitlines L old)
                                         (splitlines L new) (''a/'' @ file_path)
                                         (''b/'' @ file_path))),
                                previous_hash = Some (hash par),
                                current_hash = Some (hash cur)\<rparr>)))
          else Inr None)"

fun changes_loop_graph ::
  "pylib \<Rightarrow> (string \<times> file_info) list \<Rightarrow> (string \<times> file_info) list \<Rightarrow> string list
     \<Rightarrow> exn + (string \<times> change) list" where
  "changes_loop_graph L parent_files current_files [] = Inr []"
| "changes_loop_graph L parent_files current_files (file_path # ps) =
     (case change_for_graph L parent_files current_files file_path of
        Inl e \<Rightarrow> Inl e
      | Inr None \<Rightarrow> changes_loop_graph L parent_files current_files ps
      | Inr (Some c) \<Rightarrow>
          (case changes_loop_graph L parent_files current_files ps of
             Inl e \<Rightarrow> Inl e
           | Inr cs \<Rightarrow> Inr ((file_path, c) # cs)))"

text \<open>
  \<^verbatim>\<open>set(list(parent_files.keys()) + list(current_files.keys()))\<close>. Python does not
  fix the order in which a set is iterated; the model takes one enumeration. Each
  iteration writes the record of its own path only, so the resulting dict, read as a
  mapping, does not depend on the enumeration.
\<close>

definition all_paths :: "(string \<times> 'a) list \<Rightarrow> (string \<times> 'b) list \<Rightarrow> string list" where
  "all_paths parent_files current_files =
     remdups (map fst parent_files @ map fst current_files)"

definition with_content :: "repo_dir \<Rightarrow> (string \<times> string) list \<Rightarrow> (string \<times> file_info) list" where
  "with_content r fs =
     map (\<lambda>(file_path, file_hash).
            (file_path, \<lparr>hash = file_hash, content = get_object_content r file_hash\<rparr>)) fs"

text \<open>
  The files of the parent commit with their contents; none when the graph has no
  commit of that id.
\<close>

definition parent_files_graph :: "repo_dir \<Rightarrow> graph_data \<Rightarrow> string \<Rightarrow> (string \<times> file_info) list" where
  "parent_files_graph r g pid =
     (case map_of (commits g) pid of
        None \<Rightarrow> []
      | Some parent_commit \<Rightarrow> with_content r (files parent_commit))"

definition calculate_changes_graph ::
  "pylib \<Rightarrow> repo_dir \<Rightarrow> graph_data \<Rightarrow> string option \<Rightarrow> (string \<times> string) list
     \<Rightarrow> exn + (string \<times> change) list" where
  "calculate_changes_graph L r g par files_hashes =
     (if \<not> truthy par then
        Inr (map (\<lambda>(file_path, file_hash).
               (file_path, \<lparr>status = added, diff = None, previous_hash = None,
                            current_hash = Some file_hash\<rparr>)) files_hashes)
      else
        (let parent_files = parent_files_graph r g (the par);
             current_files = with_content r files_hashes
         in changes_loop_graph L parent_files current_files
              (all_paths parent_files current_files)))"

subsection \<open>push_commit\<close>

text \<open>
  The loop that stores the content of every file of the request. A \<^verbatim>\<open>null\<close>
  content makes \<^verbatim>\<open>hashlib.sha1\<close> raise; the objects stored before stay on disk.
\<close>

fun store_files ::
  "pylib \<Rightarrow> repo_dir \<Rightarrow> (string \<times> file_info) list \<Rightarrow> (exn + (string \<times> string) list) \<times> repo_dir" where
  "store_files L r [] = (Inr [], r)"
| "store_files L r ((file_path, file_info) # rest) =
     (case content file_info of
        None \<Rightarrow> (Inl TypeError, r)
      | Some c \<Rightarrow>
          (let (file_hash, r1) = store_object L r c
           in case store_files L r1 rest of
                (Inl e, r2) \<Rightarrow> (Inl e, r2)
              | (Inr hs, r2) \<Rightarrow> (Inr ((file_path, file_hash) # hs), r2)))"

definition advance_head :: "graph_data \<Rightarrow> string \<Rightarrow> graph_data" where
  "advance_head g cid =
     g\<lparr>HEAD := Some cid, branches := AList.update ''main'' (Some cid) (branches g)\<rparr>"

definition push_commit_graph ::
  "pylib \<Rightarrow> graph_fs \<Rightarrow> commit_desc \<Rightarrow> (error + push_ok) \<times> graph_fs" where
  "push_commit_graph L fs d =
     (if \<not> validate_repo_name (repo_name d) then (Inl InvalidName, fs)
      else
        (let k = get_repo_path (repo_name d);
             fs1 = (case fs k of None \<Rightarrow> fs(k \<mapsto> new_repo_dir) | Some r \<Rightarrow> fs)
         in case fs1 k of
              None \<Rightarrow> (Inl (ServerError FileNotFoundError), fs1)
            | Some r \<Rightarrow>
               (case graph_json r of
                  None \<Rightarrow> (Inl (ServerError FileNotFoundError), fs1)
                | Some g \<Rightarrow>
                   if commit_id d \<in> fst ` set (commits g) then (Inr AlreadyExists, fs1)
                   else
                     (case store_files L r (req_files d) of
                        (Inl e, r1) \<Rightarrow> (Inl (ServerError e), fs1(k \<mapsto> r1))
                      | (Inr files_hashes, r1) \<Rightarrow>
                         (case calculate_changes_graph L r1 g (parent_id d) files_hashes of
                            Inl e \<Rightarrow> (Inl (ServerError e), fs1(k \<mapsto> r1))
                          | Inr chs \<Rightarrow>
                             (let commit_data =
                                    \<lparr>message = message d, author = author d,
                                     timestamp = timestamp d, parent_id = parent_id d,
                                     files = files_hashes\<rparr>;
                                  g1 = g\<lparr>commits := AList.update (commit_id d) commit_data (commits g),
                                         changes := AList.update (commit_id d) chs (changes g)\<rparr>;
                                  g2 = (if HEAD g1 = None \<or> HEAD g1 = parent_id d
                                        then advance_head g1 (commit_id d) else g1)
                              in (Inr (Pushed (length chs)),
                                  fs1(k \<mapsto> r1\<lparr>graph_json := Some g2\<rparr>))))))))"

subsection \<open>get_commits and list_repos\<close>

text \<open>
  \<^verbatim>\<open>result.sort(key=timestamp, reverse=True)\<close>: Python's sort is stable, also with
  \<^verbatim>\<open>reverse=True\<close> (entries of equal key keep their order).
\<close>

definition sort_desc :: "('a \<Rightarrow> string) \<Rightarrow> 'a list \<Rightarrow> 'a list" where
  "sort_desc key xs = rev (sort_key key (rev xs))"

definition summary_graph :: "graph_data \<Rightarrow> string \<times> commit_data \<Rightarrow> commit_summary" where
  "summary_graph g = (\<lambda>(cid, cd).
     \<lparr>message = message cd, author = author cd, timestamp = timestamp cd,
      parent_id = parent_id cd, summary_id = cid,
      change_count = (case map_of (changes g) cid of None \<Rightarrow> 0 | Some chs \<Rightarrow> length chs)\<rparr>)"

definition get_commits_graph :: "graph_fs \<Rightarrow> string \<Rightarrow> error + commit_summary list" where
  "get_commits_graph fs n =
     (case fs (get_repo_path n) of
        None \<Rightarrow> Inl RepoNotFound
      | Some r \<Rightarrow>
         (case graph_json r of
            None \<Rightarrow> Inl RepoNotFound
          | Some g \<Rightarrow> Inr (sort_desc timestamp (map (summary_graph g) (commits g)))))"

text \<open>The id of \<^verbatim>\<open>last_commit\<close> that \<open>list_repos\<close> reports for a repository.\<close>

definition last_commit_graph :: "graph_data \<Rightarrow> string option" where
  "last_commit_graph g =
     (if truthy (HEAD g) \<and> the (HEAD g) \<in> fst ` set (commits g) then HEAD g else None)"

subsection \<open>pull_commits\<close>

text \<open>\<^verbatim>\<open>commits.get(commit_id, {}).get("parent_id")\<close>\<close>

definition parent_of :: "(string \<times> 'a commit_meta_scheme) list \<Rightarrow> string \<Rightarrow> string option" where
  "parent_of cs cid = (case map_of cs cid of None \<Rightarrow> None | Some cd \<Rightarrow> parent_id cd)"

text \<open>
  The nested function \<^verbatim>\<open>visit\<close>; its state is the pair of \<^verbatim>\<open>visited\<close> and
  \<^verbatim>\<open>commit_order\<close>. It recurses into the parent only for an id of
  \<^verbatim>\<open>source_commits\<close> that was not visited, so it terminates. (Python's recursion
  limit is not modelled.)
\<close>

function visit ::
  "(string \<times> commit_data) list \<Rightarrow> string \<Rightarrow> string list \<times> string list
     \<Rightarrow> string list \<times> string list" where
  "visit source_commits cid (visited, order) =
     (if cid \<in> set visited then (visited, order)
      else
        (let st1 = (cid # visited, order);
             st2 = (if truthy (parent_of source_commits cid)
                    then visit source_commits (the (parent_of source_commits cid)) st1
                    else st1)
         in (fst st2, snd st2 @ [cid])))"
  by pat_completeness auto
termination
  apply (relation "measure (\<lambda>(sc, c, visited, order). card (fst ` set sc - set visited))")
   apply simp
  apply clarsimp
  subgoal premises prems for sc c visited
  proof -
    from prems obtain cd where "map_of sc c = Some cd"
      by (auto simp: truthy_def parent_of_def split: option.splits)
    then have "(c, cd) \<in> set sc"
      by (auto dest: map_of_SomeD)
    then have "c \<in> fst ` set sc - set visited"
      using prems by force
    then show ?thesis
      by (intro psubset_card_mono) auto
  qed
  done

definition commit_order :: "(string \<times> commit_data) list \<Rightarrow> string list" where
  "commit_order source_commits =
     snd (fold (visit source_commits) (map fst source_commits) ([], []))"

definition parent_missing :: "string list \<Rightarrow> string option \<Rightarrow> bool" where
  "parent_missing target_commit_ids p \<longleftrightarrow>
     truthy p \<and> the p \<notin> set target_commit_ids"

text \<open>
  Copying the blobs of one commit: read in the source, stored again in the target.
  An object file that is missing reads as \<^verbatim>\<open>None\<close>, whose hash raises.
\<close>

fun copy_files ::
  "pylib \<Rightarrow> string \<Rightarrow> string \<Rightarrow> (string \<times> string) list \<Rightarrow> graph_fs
     \<Rightarrow> (exn + (string \<times> string) list) \<times> graph_fs" where
  "copy_files L ks kt [] fs = (Inr [], fs)"
| "copy_files L ks kt ((file_path, file_hash) # rest) fs =
     (case (fs ks, fs kt) of
        (Some sr, Some tr) \<Rightarrow>
          (case get_object_content sr file_hash of
             None \<Rightarrow> (Inl TypeError, fs)
           | Some c \<Rightarrow>
              (let (new_hash, tr1) = store_object L tr c
               in case copy_files L ks kt rest (fs(kt \<mapsto> tr1)) of
                    (Inl e, fs2) \<Rightarrow> (Inl e, fs2)
                  | (Inr hs, fs2) \<Rightarrow> (Inr ((file_path, new_hash) # hs), fs2)))
      | _ \<Rightarrow> (Inl FileNotFoundError, fs))"

text \<open>
  The loop over \<^verbatim>\<open>commit_order\<close>. Its state: the file system (objects are written
  at once), \<^verbatim>\<open>target_graph_data\<close> (written when the loop is over),
  \<^verbatim>\<open>target_commit_ids\<close> and the two counters.
\<close>

type_synonym pull_state = "graph_fs \<times> graph_data \<times> string list \<times> nat \<times> nat"

fun pull_loop_graph ::
  "pylib \<Rightarrow> string \<Rightarrow> string \<Rightarrow> graph_data \<Rightarrow> string list \<Rightarrow> pull_state
     \<Rightarrow> exn option \<times> pull_state" where
  "pull_loop_graph L ks kt sg [] st = (None, st)"
| "pull_loop_graph L ks kt sg (cid # rest) (fs, tg, ids, pulled, skipped) =
     (if cid \<in> set ids then pull_loop_graph L ks kt sg rest (fs, tg, ids, pulled, Suc skipped)
      else
        (case map_of (commits sg) cid of
           None \<Rightarrow> (Some KeyError, (fs, tg, ids, pulled, skipped))
         | Some cd \<Rightarrow>
            if parent_missing ids (parent_id cd)
            then pull_loop_graph L ks kt sg rest (fs, tg, ids, pulled, skipped)
            else
              (case copy_files L ks kt (files cd) fs of
                 (Inl e, fs1) \<Rightarrow> (Some e, (fs1, tg, ids, pulled, skipped))
               | (Inr files_dict, fs1) \<Rightarrow>
                  (let tg1 = tg\<lparr>commits := AList.update cid
                                   \<lparr>message = message cd, author = author cd,
                                    timestamp = timestamp cd, parent_id = parent_id cd,
                                    files = files_dict\<rparr> (commits tg)\<rparr>;
                       tg2 = (case map_of (changes sg) cid of
                                None \<Rightarrow> tg1
                              | Some chs \<Rightarrow> tg1\<lparr>changes := AList.update cid chs (changes tg1)\<rparr>);
                       tg3 = (if HEAD tg2 = None then advance_head tg2 cid else tg2)
                   in pull_loop_graph L ks kt sg rest
                        (fs1, tg3, cid # ids, Suc pulled, skipped)))))"

definition read_graph :: "graph_fs \<Rightarrow> string \<Rightarrow> graph_data option" where
  "read_graph fs k = (case fs k of None \<Rightarrow> None | Some r \<Rightarrow> graph_json r)"

definition write_graph :: "graph_fs \<Rightarrow> string \<Rightarrow> graph_data \<Rightarrow> graph_fs" where
  "write_graph fs k g =
     (case fs k of None \<Rightarrow> fs | Some r \<Rightarrow> fs(k \<mapsto> r\<lparr>graph_json := Some g\<rparr>))"

definition pull_commits_graph ::
  "pylib \<Rightarrow> graph_fs \<Rightarrow> string \<Rightarrow> string \<Rightarrow> (error + nat \<times> nat) \<times> graph_fs" where
  "pull_commits_graph L fs source_repo target_repo =
     (if \<not> validate_repo_name source_repo \<or> \<not> validate_repo_name target_repo
      then (Inl InvalidName, fs)
      else
        (let ks = get_repo_path source_repo; kt = get_repo_path target_repo
         in case read_graph fs ks of
              None \<Rightarrow> (Inl RepoNotFound, fs)
            | Some sg \<Rightarrow>
               (let fs1 = (if read_graph fs kt = None
                           then snd (create_repo_graph fs target_repo) else fs)
                in case read_graph fs1 kt of
                     None \<Rightarrow> (Inl (ServerError FileNotFoundError), fs1)
                   | Some tg \<Rightarrow>
                      (case pull_loop_graph L ks kt sg (commit_order (commits sg))
                              (fs1, tg, map fst (commits tg), 0, 0) of
                         (Some e, (fs2, tg', ids, pulled, skipped)) \<Rightarrow>
                           (Inl (ServerError e), fs2)
                       | (None, (fs2, tg', ids, pulled, skipped)) \<Rightarrow>
                           (Inr (pulled, skipped), write_graph fs2 kt tg')))))"

subsection \<open>clone_repo\<close>

text \<open>
  \<open>clone_repo\<close> calls \<open>get_objects_dir\<close> on the source before it checks that the
  source exists. In the model nothing between \<^verbatim>\<open>try\<close> and \<^verbatim>\<open>except\<close> raises,
  so the handler (which removes the target directory) is never entered. The result is
  \<^verbatim>\<open>commit_count\<close> and \<^verbatim>\<open>file_count\<close>.
\<close>

definition clone_repo_graph ::
  "graph_fs \<Rightarrow> string \<Rightarrow> string \<Rightarrow> (error + nat \<times> nat) \<times> graph_fs" where
  "clone_repo_graph fs source_repo target_repo =
     (if \<not> validate_repo_name source_repo \<or> \<not> validate_repo_name target_repo
      then (Inl InvalidName, fs)
      else
        (let ks = get_repo_path source_repo; kt = get_repo_path target_repo;
             fs1 = get_objects_dir fs source_repo
         in case fs1 ks of
              None \<Rightarrow> (Inl RepoNotFound, fs1)
            | Some sr \<Rightarrow>
               (case graph_json sr of
                  None \<Rightarrow> (Inl RepoNotFound, fs1)
                | Some sg \<Rightarrow>
                   if fs1 kt \<noteq> None then (Inl TargetExists, fs1)
                   else
                     (let target_graph_data =
                            empty_graph\<lparr>commits := commits sg, changes := changes sg,
                                        branches := branches sg, HEAD := HEAD sg\<rparr>;
                          commit_count = length (commits target_graph_data);
                          file_count = length (remdups (concat
                             (map (\<lambda>(cid, cd). map fst (files cd)) (commits target_graph_data))))
                      in (Inr (commit_count, file_count),
                          fs1(kt \<mapsto> \<lparr>graph_json = Some target_graph_data,
                                       objects = objects new_repo_dir ++ objects sr\<rparr>))))))"

section \<open>The SQLite backend\<close>

text \<open>
  A repository directory and its \<^verbatim>\<open>vcs.db\<close> are created together (by
  \<open>create_repo\<close> and by \<open>push_commit\<close>) and removed together, so a repository of
  this backend is its database. Statements run in a transaction: when an exception
  reaches the handler nothing of it is committed. SQL does not fix the order of rows
  of equal sort key; the model keeps them in insertion order.
\<close>

definition empty_db :: sqlite_db where
  "empty_db = \<lparr>commits_table = [], files_table = [], changes_table = []\<rparr>"

text \<open>\<^verbatim>\<open>INSERT\<close> into a table with a primary key.\<close>

definition sql_insert :: "'k \<Rightarrow> 'v \<Rightarrow> ('k \<times> 'v) list \<Rightarrow> exn + ('k \<times> 'v) list" where
  "sql_insert k v t = (if k \<in> fst ` set t then Inl IntegrityError else Inr (t @ [(k, v)]))"

fun insert_all :: "('k \<times> 'v) list \<Rightarrow> ('k \<times> 'v) list \<Rightarrow> exn + ('k \<times> 'v) list" where
  "insert_all [] t = Inr t"
| "insert_all ((k, v) # rows) t =
     (case sql_insert k v t of Inl e \<Rightarrow> Inl e | Inr t1 \<Rightarrow> insert_all rows t1)"

text \<open>\<^verbatim>\<open>SELECT ... FROM files WHERE commit_id = ?\<close>, and the same for changes.\<close>

definition rows_of :: "((string \<times> string) \<times> 'v) list \<Rightarrow> string \<Rightarrow> (string \<times> 'v) list" where
  "rows_of t cid = map (\<lambda>((c, p), v). (p, v)) (filter (\<lambda>((c, p), v). c = cid) t)"

definition create_repo_sqlite :: "sqlite_fs \<Rightarrow> string \<Rightarrow> (error + bool) \<times> sqlite_fs" where
  "create_repo_sqlite fs n =
     (if \<not> validate_repo_name n then (Inl InvalidName, fs)
      else case fs (get_repo_path n) of
             Some db \<Rightarrow> (Inr False, fs)
           | None \<Rightarrow> (Inr True, fs(get_repo_path n \<mapsto> empty_db)))"

subsection \<open>calculate_changes\<close>

definition change_for_sqlite ::
  "pylib \<Rightarrow> (string \<times> file_info) list \<Rightarrow> (string \<times> file_info) list \<Rightarrow> string
     \<Rightarrow> exn + change option" where
  "change_for_sqlite L parent_files current_files file_path =
     (if map_of current_files file_path \<noteq> None \<and> map_of parent_files file_path = None then
        (case map_of current_files file_path of
           None \<Rightarrow> Inl KeyError
         | Some cur \<Rightarrow>
            Inr (Some \<lparr>status = added, diff = None, previous_hash = None,
                        current_hash = Some (hash cur)\<rparr>))
      else if map_of current_files file_path = None \<and> map_of parent_files file_path \<noteq> None then
        (case map_of parent_files file_path of
           None \<Rightarrow> Inl KeyError
         | Some par \<Rightarrow>
            Inr (Some \<lparr>status = deleted, diff = None, previous_hash = Some (hash par),
                        current_hash = None\<rparr>))
      else
        (case map_of current_files file_path of
           None \<Rightarrow> Inl KeyError
         | Some cur \<Rightarrow>
            (case map_of parent_files file_path of
               None \<Rightarrow> Inl KeyError
             | Some par \<Rightarrow>
                if hash cur \<noteq> hash par then
                  (case content par of
                     None \<Rightarrow> Inl AttributeError
                   | Some old \<Rightarrow>
                      (case content cur of
                         None \<Rightarrow> Inl AttributeError
                       | Some new \<Rightarrow>
                          Inr (Some \<lparr>status = modified,
                                      diff = Some (join_lines (unified_diff L
                                               (splitlines L old) (splitlines L new)
                                               (''a/'' @ file_path) (''b/'' @ file_path))),
                                      previous_hash = Some (hash par),
                                      current_hash = Some (hash cur)\<rparr>)))
                else Inr None)))"

fun changes_loop_sqlite ::
  "pylib \<Rightarrow> (string \<times> file_info) list \<Rightarrow> (string \<times> file_info) list \<Rightarrow> string list
     \<Rightarrow> exn + (string \<times> change) list" where
  "changes_loop_sqlite L parent_files current_files [] = Inr []"
| "changes_loop_sqlite L parent_files current_files (file_path # ps) =
     (case change_for_sqlite L parent_files current_files file_path of
        Inl e \<Rightarrow> Inl e
      | Inr None \<Rightarrow> changes_loop_sqlite L parent_files current_files ps
      | Inr (Some c) \<Rightarrow>
          (case changes_loop_sqlite L parent_files current_files ps of
             Inl e \<Rightarrow> Inl e
           | Inr cs \<Rightarrow> Inr ((file_path, c) # cs)))"

definition calculate_changes_sqlite ::
  "pylib \<Rightarrow> sqlite_db \<Rightarrow> string option \<Rightarrow> (string \<times> file_info) list
     \<Rightarrow> exn + (string \<times> change) list" where
  "calculate_changes_sqlite L db par current_files =
     (if \<not> truthy par then
        Inr (map (\<lambda>(file_path, file_info).
               (file_path, \<lparr>status = added, diff = None, previous_hash = None,
                            current_hash = Some (hash file_info)\<rparr>)) current_files)
      else
        (let parent_files = rows_of (files_table db) (the par)
         in changes_loop_sqlite L parent_files current_files
              (all_paths parent_files current_files)))"

subsection \<open>push_commit\<close>

definition push_commit_sqlite ::
  "pylib \<Rightarrow> sqlite_fs \<Rightarrow> commit_desc \<Rightarrow> (error + push_ok) \<times> sqlite_fs" where
  "push_commit_sqlite L fs d =
     (if \<not> validate_repo_name (repo_name d) then (Inl InvalidName, fs)
      else
        (let k = get_repo_path (repo_name d);
             fs1 = (case fs k of None \<Rightarrow> fs(k \<mapsto> empty_db) | Some db \<Rightarrow> fs)
         in case fs1 k of
              None \<Rightarrow> (Inl (ServerError FileNotFoundError), fs1)
            | Some db \<Rightarrow>
               if commit_id d \<in> fst ` set (commits_table db) then (Inr AlreadyExists, fs1)
               else if truthy (parent_id d) \<and> the (parent_id d) \<notin> fst ` set (commits_table db)
               then (Inl ParentNotFound, fs1)
               else
                 (case sql_insert (commit_id d)
                         \<lparr>message = message d, author = author d,
                          timestamp = timestamp d, parent_id = parent_id d\<rparr>
                         (commits_table db) of
                    Inl e \<Rightarrow> (Inl (ServerError e), fs1)
                  | Inr ct \<Rightarrow>
                     (case insert_all (map (\<lambda>(file_path, file_info).
                                      ((commit_id d, file_path), file_info)) (req_files d))
                             (files_table db) of
                        Inl e \<Rightarrow> (Inl (ServerError e), fs1)
                      | Inr ft \<Rightarrow>
                         (case calculate_changes_sqlite L
                                 (db\<lparr>commits_table := ct, files_table := ft\<rparr>)
                                 (parent_id d) (req_files d) of
                            Inl e \<Rightarrow> (Inl (ServerError e), fs1)
                          | Inr chs \<Rightarrow>
                             (case insert_all (map (\<lambda>(file_path, change_info).
                                              ((commit_id d, file_path), change_info)) chs)
                                     (changes_table db) of
                                Inl e \<Rightarrow> (Inl (ServerError e), fs1)
                              | Inr cht \<Rightarrow>
                                 (Inr (Pushed (length chs)),
                                  fs1(k \<mapsto> \<lparr>commits_table = ct, files_table = ft,
                                              changes_table = cht\<rparr>))))))))"

subsection \<open>get_commits and list_repos\<close>

definition summary_sqlite :: "sqlite_db \<Rightarrow> string \<times> commit_meta \<Rightarrow> commit_summary" where
  "summary_sqlite db = (\<lambda>(cid, row).
     \<lparr>message = message row, author = author row, timestamp = timestamp row,
      parent_id = parent_id row, summary_id = cid,
      change_count = length (rows_of (changes_table db) cid)\<rparr>)"

definition get_commits_sqlite :: "sqlite_fs \<Rightarrow> string \<Rightarrow> error + commit_summary list" where
  "get_commits_sqlite fs n =
     (case fs (get_repo_path n) of
        None \<Rightarrow> Inl RepoNotFound
      | Some db \<Rightarrow>
         Inr (map (summary_sqlite db) (sort_desc (\<lambda>(cid, row). timestamp row) (commits_table db))))"

text \<open>\<^verbatim>\<open>SELECT id, ... FROM commits ORDER BY timestamp DESC LIMIT 1\<close>\<close>

definition last_commit_sqlite :: "sqlite_db \<Rightarrow> string option" where
  "last_commit_sqlite db =
     (case sort_desc (\<lambda>(cid, row). timestamp row) (commits_table db) of
        [] \<Rightarrow> None
      | (cid, row) # rest \<Rightarrow> Some cid)"

subsection \<open>pull_commits and clone_repo\<close>

text \<open>\<^verbatim>\<open>SELECT ... FROM commits ORDER BY timestamp ASC\<close>: the order of the loop.\<close>

definition source_commits_sqlite :: "sqlite_db \<Rightarrow> (string \<times> commit_meta) list" where
  "source_commits_sqlite db = sort_key (\<lambda>(cid, row). timestamp row) (commits_table db)"

type_synonym sqlite_pull_state = "sqlite_db \<times> string list \<times> nat \<times> nat"

fun pull_loop_sqlite ::
  "sqlite_db \<Rightarrow> (string \<times> commit_meta) list \<Rightarrow> sqlite_pull_state
     \<Rightarrow> exn option \<times> sqlite_pull_state" where
  "pull_loop_sqlite sdb [] st = (None, st)"
| "pull_loop_sqlite sdb ((cid, row) # rest) (tdb, ids, pulled, skipped) =
     (if cid \<in> set ids then pull_loop_sqlite sdb rest (tdb, ids, pulled, Suc skipped)
      else if parent_missing ids (parent_id row)
      then pull_loop_sqlite sdb rest (tdb, ids, pulled, skipped)
      else
        (case sql_insert cid row (commits_table tdb) of
           Inl e \<Rightarrow> (Some e, (tdb, ids, pulled, skipped))
         | Inr ct \<Rightarrow>
            (case insert_all (map (\<lambda>(p, v). ((cid, p), v)) (rows_of (files_table sdb) cid))
                    (files_table tdb) of
               Inl e \<Rightarrow> (Some e, (tdb, ids, pulled, skipped))
             | Inr ft \<Rightarrow>
                (case insert_all (map (\<lambda>(p, v). ((cid, p), v)) (rows_of (changes_table sdb) cid))
                        (changes_table tdb) of
                   Inl e \<Rightarrow> (Some e, (tdb, ids, pulled, skipped))
                 | Inr cht \<Rightarrow>
                    pull_loop_sqlite sdb rest
                      (\<lparr>commits_table = ct, files_table = ft, changes_table = cht\<rparr>,
                       cid # ids, Suc pulled, skipped)))))"

definition pull_commits_sqlite ::
  "sqlite_fs \<Rightarrow> string \<Rightarrow> string \<Rightarrow> (error + nat \<times> nat) \<times> sqlite_fs" where
  "pull_commits_sqlite fs source_repo target_repo =
     (if \<not> validate_repo_name source_repo \<or> \<not> validate_repo_name target_repo
      then (Inl InvalidName, fs)
      else
        (let ks = get_repo_path source_repo; kt = get_repo_path target_repo
         in case fs ks of
              None \<Rightarrow> (Inl RepoNotFound, fs)
            | Some sdb \<Rightarrow>
               (let fs1 = (if fs kt = None
                           then snd (create_repo_sqlite fs target_repo) else fs)
                in case fs1 kt of
                     None \<Rightarrow> (Inl (ServerError FileNotFoundError), fs1)
                   | Some tdb \<Rightarrow>
                      (case pull_loop_sqlite sdb (source_commits_sqlite sdb)
                              (tdb, map fst (commits_table tdb), 0, 0) of
                         (Some e, st) \<Rightarrow> (Inl (ServerError e), fs1)
                       | (None, (tdb', ids, pulled, skipped)) \<Rightarrow>
                           (Inr (pulled, skipped), fs1(kt \<mapsto> tdb'))))))"

text \<open>
  \<open>clone_repo\<close> creates the target and returns what \<open>pull_commits\<close> returns.
  \<open>pull_commits\<close> handles its own exceptions and returns the response of status
  500, so the handler of \<open>clone_repo\<close>, which would remove the target directory, is
  not entered by a failure of the pull.
\<close>

definition clone_repo_sqlite ::
  "sqlite_fs \<Rightarrow> string \<Rightarrow> string \<Rightarrow> (error + nat \<times> nat) \<times> sqlite_fs" where
  "clone_repo_sqlite fs source_repo target_repo =
     (if \<not> validate_repo_name source_repo \<or> \<not> validate_repo_name target_repo
      then (Inl InvalidName, fs)
      else
        (let ks = get_repo_path source_repo; kt = get_repo_path target_repo
         in if fs ks = None then (Inl RepoNotFound, fs)
            else if fs kt \<noteq> None then (Inl TargetExists, fs)
            else pull_commits_sqlite (snd (create_repo_sqlite fs target_repo))
                   source_repo target_repo))"

section \<open>Specification predicates\<close>

text \<open>
  The content-addressing invariant of an object store: every object file is named by
  the hash of what it holds.
\<close>

definition content_addressed :: "pylib \<Rightarrow> repo_dir \<Rightarrow> bool" where
  "content_addressed L r \<longleftrightarrow> (\<forall>h c. objects r h = Some c \<longrightarrow> h = calculate_hash L c)"

text \<open>
  The graph a push works on: the one of the repository, or the empty graph with which
  the repository is created when there is none.
\<close>

definition graph_or_empty :: "graph_fs \<Rightarrow> string \<Rightarrow> graph_data" where
  "graph_or_empty fs k = (case read_graph fs k of None \<Rightarrow> empty_graph | Some g \<Rightarrow> g)"

text \<open>
  The change set as the specification words it, over the two mappings from path to
  blob hash of the parent commit and of the current commit: the paths of either
  mapping except those of both with an unchanged hash; a path of the current commit
  only is added, a path of the parent only is deleted, a path of both with differing
  hashes is modified and has a diff, and no other path has a record.
\<close>

definition changed_paths :: "(string \<rightharpoonup> string) \<Rightarrow> (string \<rightharpoonup> string) \<Rightarrow> string set" where
  "changed_paths parent current =
     (dom parent \<union> dom current) - {p \<in> dom parent \<inter> dom current. parent p = current p}"

definition change_spec :: "string option \<Rightarrow> string option \<Rightarrow> change option \<Rightarrow> bool" where
  "change_spec parent_h current_h ch =
     (case (parent_h, current_h) of
        (None, None) \<Rightarrow> ch = None
      | (None, Some h) \<Rightarrow>
          (case ch of None \<Rightarrow> False | Some c \<Rightarrow> status c = added \<and> diff c = None)
      | (Some h, None) \<Rightarrow>
          (case ch of None \<Rightarrow> False | Some c \<Rightarrow> status c = deleted \<and> diff c = None)
      | (Some h, Some h') \<Rightarrow>
          if h = h' then ch = None
          else (case ch of None \<Rightarrow> False | Some c \<Rightarrow> status c = modified \<and> diff c \<noteq> None))"

definition change_set_spec ::
  "(string \<rightharpoonup> string) \<Rightarrow> (string \<rightharpoonup> string) \<Rightarrow> (string \<times> change) list \<Rightarrow> bool" where
  "change_set_spec parent current chs \<longleftrightarrow>
     distinct (map fst chs) \<and> fst ` set chs = changed_paths parent current \<and>
     (\<forall>p. change_spec (parent p) (current p) (map_of chs p))"

text \<open>The change set of a commit without parent: every file added, without diff.\<close>

definition all_added_spec :: "(string \<rightharpoonup> string) \<Rightarrow> (string \<times> change) list \<Rightarrow> bool" where
  "all_added_spec current chs \<longleftrightarrow>
     fst ` set chs = dom current \<and>
     (\<forall>p. map_of chs p =
        map_option (\<lambda>h. \<lparr>status = added, diff = None, previous_hash = None,
                          current_hash = Some h\<rparr>) (current p))"

text \<open>
  The schema declares \<^verbatim>\<open>commit_id\<close> of the tables \<^verbatim>\<open>files\<close> and \<^verbatim>\<open>changes\<close> a
  foreign key into \<^verbatim>\<open>commits\<close>: every row belongs to a commit of the repository.
\<close>

definition foreign_keys :: "sqlite_db \<Rightarrow> bool" where
  "foreign_keys db \<longleftrightarrow>
     (\<forall>k \<in> fst ` set (files_table db). fst k \<in> fst ` set (commits_table db)) \<and>
     (\<forall>k \<in> fst ` set (changes_table db). fst k \<in> fst ` set (commits_table db))"

definition db_or_empty :: "sqlite_fs \<Rightarrow> string \<Rightarrow> sqlite_db" where
  "db_or_empty fs k = (case fs k of None \<Rightarrow> empty_db | Some db \<Rightarrow> db)"

text \<open>
  A sequence of commits, each with its parent id, in which every commit with a parent
  comes after that parent: the parent is among the ids \<open>seen\<close> before the sequence or
  stands earlier in it.
\<close>

fun parents_first :: "string list \<Rightarrow> (string \<times> string option) list \<Rightarrow> bool" where
  "parents_first seen [] = True"
| "parents_first seen ((cid, p) # rest) =
     ((if truthy p then the p \<in> set seen else True) \<and> parents_first (cid # seen) rest)"

definition with_parent ::
  "(string \<times> 'a commit_meta_scheme) list \<Rightarrow> string list \<Rightarrow> (string \<times> string option) list" where
  "with_parent cs order = map (\<lambda>cid. (cid, parent_of cs cid)) order"

definition parents_of ::
  "(string \<times> 'a commit_meta_scheme) list \<Rightarrow> (string \<times> string option) list" where
  "parents_of cs = map (\<lambda>(cid, cd). (cid, parent_id cd)) cs"

section \<open>Example inputs\<close>

text \<open>
  A small instance of the library functions, with which the model is evaluated on
  concrete inputs. Its hash is injective, as SHA-1 is taken to be.
\<close>

definition example_lib :: pylib where
  "example_lib =
     \<lparr>sha1_hexdigest = (\<lambda>c. ''sha1:'' @ c),
      splitlines = (\<lambda>c. [c]),
      unified_diff = (\<lambda>a b fromfile tofile.
         [''--- '' @ fromfile, ''+++ '' @ tofile] @ map ((#) CHR ''-'') a @ map ((#) CHR ''+'') b)\<rparr>"

definition commit_a :: commit_desc where
  "commit_a = \<lparr>message = ''first'', author = ''ann'', timestamp = ''2024-01-01T10:00:00'',
               parent_id = None, repo_name = ''demo'', commit_id = ''A'',
               req_files = [(''f.txt'', \<lparr>hash = ''h1'', content = Some ''v1''\<rparr>)]\<rparr>"

definition one_object :: repo_dir where
  "one_object = snd (store_object example_lib \<lparr>graph_json = Some empty_graph, objects = Map.empty\<rparr> ''v1'')"

text \<open>
  Commit \<open>B\<close> is a child of \<open>A\<close> whose timestamp (supplied by the caller, as every
  timestamp is) lies before that of \<open>A\<close>.
\<close>

definition commit_b :: commit_desc where
  "commit_b = \<lparr>message = ''second'', author = ''bob'', timestamp = ''2024-01-01T09:00:00'',
               parent_id = Some ''A'', repo_name = ''demo'', commit_id = ''B'',
               req_files = [(''f.txt'', \<lparr>hash = ''h2'', content = Some ''v2''\<rparr>)]\<rparr>"

definition graph_a_data :: graph_data where
  "graph_a_data =
     \<lparr>commits = [(''A'', \<lparr>message = ''first'', author = ''ann'',
                          timestamp = ''2024-01-01T10:00:00'', parent_id = None,
                          files = [(''f.txt'', ''sha1:v1'')]\<rparr>)],
      changes = [(''A'', [(''f.txt'', \<lparr>status = added, diff = None, previous_hash = None,
                                       current_hash = Some ''sha1:v1''\<rparr>)])],
      branches = [(''main'', Some ''A'')], HEAD = Some ''A''\<rparr>"

definition graph_a :: graph_fs where
  "graph_a = [''demo'' \<mapsto> \<lparr>graph_json = Some graph_a_data,
                             objects = [''sha1:v1'' \<mapsto> ''v1'']\<rparr>]"

definition graph_ab_data :: graph_data where
  "graph_ab_data =
     \<lparr>commits = [(''A'', \<lparr>message = ''first'', author = ''ann'',
                          timestamp = ''2024-01-01T10:00:00'', parent_id = None,
                          files = [(''f.txt'', ''sha1:v1'')]\<rparr>),
                 (''B'', \<lparr>message = ''second'', author = ''bob'',
                          timestamp = ''2024-01-01T09:00:00'', parent_id = Some ''A'',
                          files = [(''f.txt'', ''sha1:v2'')]\<rparr>)],
      changes = [(''A'', [(''f.txt'', \<lparr>status = added, diff = None, previous_hash = None,
                                       current_hash = Some ''sha1:v1''\<rparr>)]),
                 (''B'', [(''f.txt'', \<lparr>status = modified,
                                       diff = Some (join_lines [''--- a/f.txt'', ''+++ b/f.txt'',
                                                                ''-v1'', ''+v2'']),
                                       previous_hash = Some ''sha1:v1'',
                                       current_hash = Some ''sha1:v2''\<rparr>)])],
      branches = [(''main'', Some ''B'')], HEAD = Some ''B''\<rparr>"

definition graph_ab :: graph_fs where
  "graph_ab = [''demo'' \<mapsto> \<lparr>graph_json = Some graph_ab_data,
                              objects = [''sha1:v1'' \<mapsto> ''v1'', ''sha1:v2'' \<mapsto> ''v2'']\<rparr>]"

definition sqlite_a_db :: sqlite_db where
  "sqlite_a_db =
     \<lparr>commits_table = [(''A'', \<lparr>message = ''first'', author = ''ann'',
                                timestamp = ''2024-01-01T10:00:00'', parent_id = None\<rparr>)],
      files_table = [((''A'', ''f.txt''), \<lparr>hash = ''h1'', content = Some ''v1''\<rparr>)],
      changes_table = [((''A'', ''f.txt''), \<lparr>status = added, diff = None,
                          previous_hash = None, current_hash = Some ''h1''\<rparr>)]\<rparr>"

definition sqlite_a :: sqlite_fs where
  "sqlite_a = [''demo'' \<mapsto> sqlite_a_db]"

definition sqlite_ab_db :: sqlite_db where
  "sqlite_ab_db =
     \<lparr>commits_table = [(''A'', \<lparr>message = ''first'', author = ''ann'',
                                timestamp = ''2024-01-01T10:00:00'', parent_id = None\<rparr>),
                       (''B'', \<lparr>message = ''second'', author = ''bob'',
                                timestamp = ''2024-01-01T09:00:00'', parent_id = Some ''A''\<rparr>)],
      files_table = [((''A'', ''f.txt''), \<lparr>hash = ''h1'', content = Some ''v1''\<rparr>),
                     ((''B'', ''f.txt''), \<lparr>hash = ''h2'', content = Some ''v2''\<rparr>)],
      changes_table = [((''A'', ''f.txt''), \<lparr>status = added, diff = None,
                          previous_hash = None, current_hash = Some ''h1''\<rparr>),
                       ((''B'', ''f.txt''), \<lparr>status = modified,
                          diff = Some (join_lines [''--- a/f.txt'', ''+++ b/f.txt'',
                                                   ''-v1'', ''+v2'']),
                          previous_hash = Some ''h1'', current_hash = Some ''h2''\<rparr>)]\<rparr>"

definition sqlite_ab :: sqlite_fs where
  "sqlite_ab = [''demo'' \<mapsto> sqlite_ab_db]"

text \<open>Commit \<open>E\<close> carries the empty string as its parent id, commit \<open>D\<close> an id that no commit has.\<close>

definition commit_e :: commit_desc where
  "commit_e = \<lparr>message = ''third'', author = ''eve'', timestamp = ''2024-01-02T08:00:00'',
               parent_id = Some [], repo_name = ''demo'', commit_id = ''E'',
               req_files = [(''f.txt'', \<lparr>hash = ''h1'', content = Some ''v1''\<rparr>)]\<rparr>"

definition commit_d :: commit_desc where
  "commit_d = \<lparr>message = ''fourth'', author = ''dan'', timestamp = ''2024-01-02T09:00:00'',
               parent_id = Some ''Z'', repo_name = ''demo'', commit_id = ''D'',
               req_files = [(''f.txt'', \<lparr>hash = ''h1'', content = Some ''v1''\<rparr>)]\<rparr>"

text \<open>Parent files and current files, each as two dicts of different insertion order.\<close>

definition files_p :: "(string \<times> file_info) list" where
  "files_p = [(''f.txt'', \<lparr>hash = ''sha1:v1'', content = Some ''v1''\<rparr>),
              (''g.txt'', \<lparr>hash = ''sha1:w'', content = Some ''w''\<rparr>)]"

definition files_c :: "(string \<times> file_info) list" where
  "files_c = [(''f.txt'', \<lparr>hash = ''sha1:v2'', content = Some ''v2''\<rparr>),
              (''h.txt'', \<lparr>hash = ''sha1:x'', content = Some ''x''\<rparr>)]"

definition changes_pc :: "(string \<times> change) list" where
  "changes_pc =
     [(''f.txt'', \<lparr>status = modified,
                   diff = Some (join_lines [''--- a/f.txt'', ''+++ b/f.txt'', ''-v1'', ''+v2'']),
                   previous_hash = Some ''sha1:v1'', current_hash = Some ''sha1:v2''\<rparr>),
      (''g.txt'', \<lparr>status = deleted, diff = None, previous_hash = Some ''sha1:w'',
                   current_hash = None\<rparr>),
      (''h.txt'', \<lparr>status = added, diff = None, previous_hash = None,
                   current_hash = Some ''sha1:x''\<rparr>)]"

definition dir_pc :: repo_dir where
  "dir_pc = \<lparr>graph_json = None,
              objects = [''sha1:v1'' \<mapsto> ''v1'', ''sha1:w'' \<mapsto> ''w'',
                         ''sha1:v2'' \<mapsto> ''v2'', ''sha1:x'' \<mapsto> ''x'']\<rparr>"

definition graph_p :: graph_data where
  "graph_p = empty_graph\<lparr>commits :=
     [(''P'', \<lparr>message = ''parent'', author = ''ann'', timestamp = ''2024-01-01T10:00:00'',
               parent_id = None, files = map (\<lambda>(p, fi). (p, hash fi)) files_p\<rparr>)]\<rparr>"

definition db_p :: sqlite_db where
  "db_p = empty_db\<lparr>files_table := map (\<lambda>(p, fi). ((''P'', p), fi)) (rev files_p)\<rparr>"

text \<open>
  Commit \<open>N\<close> has the empty string as its id; pushed to no repository it gives
  \<open>graph_n\<close>. Commit \<open>E\<close> above names it as its parent.
\<close>

definition commit_n :: commit_desc where
  "commit_n = \<lparr>message = ''root'', author = ''ann'', timestamp = ''2024-01-01T07:00:00'',
               parent_id = None, repo_name = ''demo'', commit_id = [],
               req_files = [(''g.txt'', \<lparr>hash = ''hw'', content = Some ''w''\<rparr>)]\<rparr>"

definition graph_n_data :: graph_data where
  "graph_n_data =
     \<lparr>commits = [([], \<lparr>message = ''root'', author = ''ann'',
                        timestamp = ''2024-01-01T07:00:00'', parent_id = None,
                        files = [(''g.txt'', ''sha1:w'')]\<rparr>)],
      changes = [([], [(''g.txt'', \<lparr>status = added, diff = None, previous_hash = None,
                                     current_hash = Some ''sha1:w''\<rparr>)])],
      branches = [(''main'', Some [])], HEAD = Some []\<rparr>"

definition graph_n :: graph_fs where
  "graph_n = [''demo'' \<mapsto> \<lparr>graph_json = Some graph_n_data,
                             objects = [''sha1:w'' \<mapsto> ''w'']\<rparr>]"

definition graph_ne_data :: graph_data where
  "graph_ne_data =
     \<lparr>commits = [([], \<lparr>message = ''root'', author = ''ann'',
                        timestamp = ''2024-01-01T07:00:00'', parent_id = None,
                        files = [(''g.txt'', ''sha1:w'')]\<rparr>),
                 (''E'', \<lparr>message = ''third'', author = ''eve'',
                          timestamp = ''2024-01-02T08:00:00'', parent_id = Some [],
                          files = [(''f.txt'', ''sha1:v1'')]\<rparr>)],
      changes = [([], [(''g.txt'', \<lparr>status = added, diff = None, previous_hash = None,
                                     current_hash = Some ''sha1:w''\<rparr>)]),
                 (''E'', [(''f.txt'', \<lparr>status = added, diff = None, previous_hash = None,
                                       current_hash = Some ''sha1:v1''\<rparr>)])],
      branches = [(''main'', Some ''E'')], HEAD = Some ''E''\<rparr>"

definition graph_ne :: graph_fs where
  "graph_ne = [''demo'' \<mapsto> \<lparr>graph_json = Some graph_ne_data,
                              objects = [''sha1:w'' \<mapsto> ''w'', ''sha1:v1'' \<mapsto> ''v1'']\<rparr>]"

text \<open>The commits of a graph to which the child \<open>B\<close> was pushed before its parent \<open>A\<close>.\<close>

definition commits_ba :: "(string \<times> commit_data) list" where
  "commits_ba =
     [(''B'', \<lparr>message = ''second'', author = ''bob'', timestamp = ''2024-01-01T09:00:00'',
               parent_id = Some ''A'', files = [(''f.txt'', ''sha1:v2'')]\<rparr>),
      (''A'', \<lparr>message = ''first'', author = ''ann'', timestamp = ''2024-01-01T10:00:00'',
               parent_id = None, files = [(''f.txt'', ''sha1:v1'')]\<rparr>)]"

section \<open>Properties\<close>

subsection \<open>Evaluation of names\<close>

lemma valid_demo: "validate_repo_name ''demo''"
  by (simp add: validate_repo_name_def name_char_def)

lemma path_demo: "get_repo_path ''demo'' = ''demo''"
  by (simp add: get_repo_path_def sanitize_path_def strip_def name_char_def space_char_def)

subsection \<open>Pushing a commit id twice\<close>

lemma push_graph_existing:
  assumes "validate_repo_name (repo_name d)"
    and "fs (get_repo_path (repo_name d)) = Some r" and "graph_json r = Some g"
    and "commit_id d \<in> fst ` set (commits g)"
  shows "push_commit_graph L fs d = (Inr AlreadyExists, fs)"
  using assms by (simp add: push_commit_graph_def)

lemma push_sqlite_existing:
  assumes "validate_repo_name (repo_name d)"
    and "fs (get_repo_path (repo_name d)) = Some db"
    and "commit_id d \<in> fst ` set (commits_table db)"
  shows "push_commit_sqlite L fs d = (Inr AlreadyExists, fs)"
  using assms by (simp add: push_commit_sqlite_def)

lemma update_key_in: "k \<in> fst ` set (AList.update k v al)"
  by (induction al) auto

lemma push_graph_ok_recorded:
  assumes "push_commit_graph L fs d = (Inr ok, fs')"
  shows "validate_repo_name (repo_name d) \<and>
         (\<exists>r g. fs' (get_repo_path (repo_name d)) = Some r \<and> graph_json r = Some g \<and>
                commit_id d \<in> fst ` set (commits g))"
proof -
  have v: "validate_repo_name (repo_name d)"
    using assms by (auto simp: push_commit_graph_def split: if_splits)
  show ?thesis
    using assms v
    by (auto simp: push_commit_graph_def Let_def advance_head_def update_key_in
        new_repo_dir_def empty_graph_def intro: rev_image_eqI
        split: option.splits if_splits prod.splits sum.splits)
qed

lemma sql_insert_key: "sql_insert k v t = Inr t' \<Longrightarrow> k \<in> fst ` set t'"
  by (auto simp: sql_insert_def split: if_splits)

lemma push_sqlite_ok_recorded:
  assumes "push_commit_sqlite L fs d = (Inr ok, fs')"
  shows "validate_repo_name (repo_name d) \<and>
         (\<exists>db. fs' (get_repo_path (repo_name d)) = Some db \<and>
                commit_id d \<in> fst ` set (commits_table db))"
proof -
  have v: "validate_repo_name (repo_name d)"
    using assms by (auto simp: push_commit_sqlite_def split: if_splits)
  show ?thesis
    using assms v
    by (auto simp: push_commit_sqlite_def Let_def empty_db_def dest: sql_insert_key
        intro: rev_image_eqI
        split: option.splits if_splits prod.splits sum.splits)
qed


text \<open>
  C1. A push whose commit id is already in the repository answers with success and
  leaves the whole file system of the backend as it was, in both backends; hence a
  second push of the same id, after a push that succeeded, changes nothing.
\<close>

theorem push_duplicate_noop:
  "validate_repo_name (repo_name d) \<Longrightarrow> repo_name d' = repo_name d \<Longrightarrow> commit_id d' = commit_id d \<Longrightarrow>
   (\<forall>g. read_graph fs (get_repo_path (repo_name d)) = Some g \<longrightarrow>
        commit_id d \<in> fst ` set (commits g) \<longrightarrow>
        push_commit_graph L fs d = (Inr AlreadyExists, fs)) \<and>
   (\<forall>db. sfs (get_repo_path (repo_name d)) = Some db \<longrightarrow>
        commit_id d \<in> fst ` set (commits_table db) \<longrightarrow>
        push_commit_sqlite L sfs d = (Inr AlreadyExists, sfs)) \<and>
   (\<forall>ok fs1. push_commit_graph L fs d = (Inr ok, fs1) \<longrightarrow>
        push_commit_graph L fs1 d' = (Inr AlreadyExists, fs1)) \<and>
   (\<forall>ok sfs1. push_commit_sqlite L sfs d = (Inr ok, sfs1) \<longrightarrow>
        push_commit_sqlite L sfs1 d' = (Inr AlreadyExists, sfs1))"
proof (intro conjI allI impI)
  fix g
  assume "validate_repo_name (repo_name d)"
    and "read_graph fs (get_repo_path (repo_name d)) = Some g"
    and "commit_id d \<in> fst ` set (commits g)"
  then show "push_commit_graph L fs d = (Inr AlreadyExists, fs)"
    by (auto simp: read_graph_def split: option.splits intro: push_graph_existing)
next
  fix db
  assume "validate_repo_name (repo_name d)"
    and "sfs (get_repo_path (repo_name d)) = Some db"
    and "commit_id d \<in> fst ` set (commits_table db)"
  then show "push_commit_sqlite L sfs d = (Inr AlreadyExists, sfs)"
    by (rule push_sqlite_existing)
next
  fix ok fs1
  assume eq: "repo_name d' = repo_name d" "commit_id d' = commit_id d"
    and "push_commit_graph L fs d = (Inr ok, fs1)"
  from push_graph_ok_recorded [OF this(3)] obtain r g
    where "validate_repo_name (repo_name d)"
      and "fs1 (get_repo_path (repo_name d)) = Some r" and "graph_json r = Some g"
      and "commit_id d \<in> fst ` set (commits g)"
    by blast
  with eq show "push_commit_graph L fs1 d' = (Inr AlreadyExists, fs1)"
    by (intro push_graph_existing [where r = r and g = g]) simp_all
next
  fix ok sfs1
  assume eq: "repo_name d' = repo_name d" "commit_id d' = commit_id d"
    and "push_commit_sqlite L sfs d = (Inr ok, sfs1)"
  from push_sqlite_ok_recorded [OF this(3)] obtain db
    where "validate_repo_name (repo_name d)"
      and "sfs1 (get_repo_path (repo_name d)) = Some db"
      and "commit_id d \<in> fst ` set (commits_table db)"
    by blast
  with eq show "push_commit_sqlite L sfs1 d' = (Inr AlreadyExists, sfs1)"
    by (intro push_sqlite_existing [where db = db]) simp_all
qed

lemma push_a_graph:
  "fst (push_commit_graph example_lib Map.empty commit_a) = Inr (Pushed 1)"
  by (simp add: push_commit_graph_def commit_a_def valid_demo path_demo new_repo_dir_def
      empty_graph_def store_object_def calculate_hash_def example_lib_def
      calculate_changes_graph_def truthy_def advance_head_def Let_def)

lemma push_a_sqlite:
  "fst (push_commit_sqlite example_lib Map.empty commit_a) = Inr (Pushed 1)"
  by (simp add: push_commit_sqlite_def commit_a_def valid_demo path_demo empty_db_def
      sql_insert_def calculate_changes_sqlite_def truthy_def Let_def)

theorem push_duplicate_noop_witness:
  "validate_repo_name (repo_name commit_a) \<and>
   fst (push_commit_graph example_lib Map.empty commit_a) = Inr (Pushed 1) \<and>
   push_commit_graph example_lib (snd (push_commit_graph example_lib Map.empty commit_a)) commit_a
     = (Inr AlreadyExists, snd (push_commit_graph example_lib Map.empty commit_a)) \<and>
   fst (push_commit_sqlite example_lib Map.empty commit_a) = Inr (Pushed 1) \<and>
   push_commit_sqlite example_lib (snd (push_commit_sqlite example_lib Map.empty commit_a)) commit_a
     = (Inr AlreadyExists, snd (push_commit_sqlite example_lib Map.empty commit_a))"
proof -
  have v: "validate_repo_name (repo_name commit_a)"
    by (simp add: commit_a_def valid_demo)
  have g: "push_commit_graph example_lib Map.empty commit_a =
           (Inr (Pushed 1), snd (push_commit_graph example_lib Map.empty commit_a))"
    using push_a_graph by (metis prod.collapse)
  have s: "push_commit_sqlite example_lib Map.empty commit_a =
           (Inr (Pushed 1), snd (push_commit_sqlite example_lib Map.empty commit_a))"
    using push_a_sqlite by (metis prod.collapse)
  from push_duplicate_noop [OF v refl refl, where fs = Map.empty and sfs = Map.empty
      and L = example_lib] g s v
  show ?thesis
    using push_a_graph push_a_sqlite by blast
qed

subsection \<open>The object store\<close>

lemma store_object_hash: "fst (store_object L r c) = sha1_hexdigest L c"
  by (simp add: store_object_def calculate_hash_def Let_def)

lemma store_object_present:
  "objects r (calculate_hash L c) \<noteq> None \<Longrightarrow> store_object L r c = (calculate_hash L c, r)"
  by (auto simp: store_object_def Let_def)

lemma store_object_stored:
  "objects (snd (store_object L r c)) (calculate_hash L c) \<noteq> None"
  by (simp add: store_object_def Let_def)

lemma store_object_twice:
  "store_object L (snd (store_object L r c)) c = (calculate_hash L c, snd (store_object L r c))"
  by (rule store_object_present) (rule store_object_stored)

lemma store_object_keeps_invariant:
  "content_addressed L r \<Longrightarrow> content_addressed L (snd (store_object L r c))"
  by (auto simp: content_addressed_def store_object_def Let_def split: if_splits)

lemma content_addressed_once:
  "content_addressed L r \<Longrightarrow> objects r h1 = Some x \<Longrightarrow> objects r h2 = Some x \<Longrightarrow> h1 = h2"
  by (metis content_addressed_def)

lemma store_files_hashes:
  "store_files L r fs = (Inr hs, r1) \<Longrightarrow>
   hs = map (\<lambda>(p, fi). (p, sha1_hexdigest L (the (content fi)))) fs"
  by (induction fs arbitrary: r hs r1)
     (auto simp: store_object_def calculate_hash_def Let_def
        split: option.splits prod.splits sum.splits if_splits)

text \<open>
  C6. The hash under which \<open>store_object\<close> stores a content, and which a push
  records for each file, is \<open>calculate_hash\<close> of the content, the SHA-1 hex digest
  of its UTF-8 bytes; it depends on the content only, not on the repository.
  Storing a content whose object exists writes nothing, so storing twice is storing
  once; and in an object store where every object is named by the hash of what it
  holds, this stays so and no content is held under two names.
\<close>

theorem store_object_content_addressed:
  "fst (store_object L r c) = sha1_hexdigest L c \<and>
   fst (store_object L r c) = fst (store_object L r' c) \<and>
   (\<forall>fs hs r1. store_files L r fs = (Inr hs, r1) \<longrightarrow>
        hs = map (\<lambda>(p, fi). (p, sha1_hexdigest L (the (content fi)))) fs) \<and>
   (objects r (calculate_hash L c) \<noteq> None \<longrightarrow> store_object L r c = (calculate_hash L c, r)) \<and>
   store_object L (snd (store_object L r c)) c = (calculate_hash L c, snd (store_object L r c)) \<and>
   graph_json (snd (store_object L r c)) = graph_json r \<and>
   (content_addressed L r \<longrightarrow>
      content_addressed L (snd (store_object L r c)) \<and>
      (\<forall>h1 h2 x. objects (snd (store_object L r c)) h1 = Some x \<and>
                  objects (snd (store_object L r c)) h2 = Some x \<longrightarrow> h1 = h2))"
proof (intro conjI allI impI)
  show "fst (store_object L r c) = sha1_hexdigest L c"
    by (rule store_object_hash)
  show "fst (store_object L r c) = fst (store_object L r' c)"
    by (simp add: store_object_hash)
  show "graph_json (snd (store_object L r c)) = graph_json r"
    by (simp add: store_object_def Let_def)
  show "store_object L (snd (store_object L r c)) c = (calculate_hash L c, snd (store_object L r c))"
    by (rule store_object_twice)
next
  fix fs hs r1
  assume "store_files L r fs = (Inr hs, r1)"
  then show "hs = map (\<lambda>(p, fi). (p, sha1_hexdigest L (the (content fi)))) fs"
    by (rule store_files_hashes)
next
  assume "objects r (calculate_hash L c) \<noteq> None"
  then show "store_object L r c = (calculate_hash L c, r)"
    by (rule store_object_present)
next
  assume "content_addressed L r"
  then show "content_addressed L (snd (store_object L r c))"
    by (rule store_object_keeps_invariant)
next
  fix h1 h2 x
  assume "content_addressed L r"
    and "objects (snd (store_object L r c)) h1 = Some x \<and>
         objects (snd (store_object L r c)) h2 = Some x"
  then show "h1 = h2"
    using content_addressed_once [OF store_object_keeps_invariant] by blast
qed

lemma one_object_eval: "objects one_object = [''sha1:v1'' \<mapsto> ''v1'']"
  by (simp add: one_object_def store_object_def calculate_hash_def example_lib_def Let_def)

theorem store_object_content_addressed_witness:
  "content_addressed example_lib one_object \<and>
   objects one_object (calculate_hash example_lib ''v1'') \<noteq> None \<and>
   store_files example_lib one_object [(''f.txt'', \<lparr>hash = ''h'', content = Some ''v1''\<rparr>)]
     = (Inr [(''f.txt'', ''sha1:v1'')], one_object) \<and>
   store_object example_lib one_object ''v1'' = (''sha1:v1'', one_object) \<and>
   content_addressed example_lib (snd (store_object example_lib one_object ''v2'')) \<and>
   objects (snd (store_object example_lib one_object ''v2'')) ''sha1:v2'' = Some ''v2''"
proof -
  have ca: "content_addressed example_lib one_object"
    by (simp add: content_addressed_def one_object_eval calculate_hash_def example_lib_def)
  have pres: "objects one_object (calculate_hash example_lib ''v1'') \<noteq> None"
    by (simp add: one_object_eval calculate_hash_def example_lib_def)
  have h: "calculate_hash example_lib ''v1'' = ''sha1:v1''"
    by (simp add: calculate_hash_def example_lib_def)
  have sf: "store_files example_lib one_object [(''f.txt'', \<lparr>hash = ''h'', content = Some ''v1''\<rparr>)]
     = (Inr [(''f.txt'', ''sha1:v1'')], one_object)"
    using pres by (simp add: store_object_present h)
  have o2: "objects (snd (store_object example_lib one_object ''v2'')) ''sha1:v2'' = Some ''v2''"
    by (simp add: store_object_def one_object_eval calculate_hash_def example_lib_def Let_def)
  from store_object_content_addressed [of example_lib one_object "''v1''" one_object]
    store_object_content_addressed [of example_lib one_object "''v2''" one_object]
    ca pres h sf o2
  show ?thesis by simp
qed

subsection \<open>Evaluation of the example pushes\<close>

lemma push_a_graph_eval:
  "push_commit_graph example_lib Map.empty commit_a = (Inr (Pushed 1), graph_a)"
  by (simp add: push_commit_graph_def commit_a_def valid_demo path_demo new_repo_dir_def
      empty_graph_def store_object_def calculate_hash_def example_lib_def
      calculate_changes_graph_def truthy_def advance_head_def Let_def
      graph_a_def graph_a_data_def)

lemma push_b_graph_eval:
  "push_commit_graph example_lib graph_a commit_b = (Inr (Pushed 1), graph_ab)"
  by (simp add: push_commit_graph_def commit_b_def valid_demo path_demo
      store_object_def calculate_hash_def example_lib_def
      calculate_changes_graph_def parent_files_graph_def truthy_def advance_head_def Let_def
      graph_a_def graph_a_data_def graph_ab_def graph_ab_data_def
      with_content_def get_object_content_def all_paths_def change_for_graph_def)

lemma push_a_sqlite_eval:
  "push_commit_sqlite example_lib Map.empty commit_a = (Inr (Pushed 1), sqlite_a)"
  by (simp add: push_commit_sqlite_def commit_a_def valid_demo path_demo empty_db_def
      sql_insert_def calculate_changes_sqlite_def truthy_def Let_def
      sqlite_a_def sqlite_a_db_def)

lemma push_b_sqlite_eval:
  "push_commit_sqlite example_lib sqlite_a commit_b = (Inr (Pushed 1), sqlite_ab)"
  by (simp add: push_commit_sqlite_def commit_b_def valid_demo path_demo
      sql_insert_def calculate_changes_sqlite_def truthy_def Let_def
      sqlite_a_def sqlite_a_db_def sqlite_ab_def sqlite_ab_db_def
      rows_of_def all_paths_def change_for_sqlite_def example_lib_def)

lemma last_commit_sqlite_a: "last_commit_sqlite sqlite_a_db = Some ''A''"
  by (simp add: last_commit_sqlite_def sort_desc_def sqlite_a_db_def)

lemma last_commit_sqlite_ab: "last_commit_sqlite sqlite_ab_db = Some ''A''"
  by (simp add: last_commit_sqlite_def sort_desc_def sqlite_ab_db_def)

subsection \<open>The HEAD rule of push\<close>

lemma map_of_sql_insert:
  "sql_insert k v t = Inr t' \<Longrightarrow> map_of t' k = Some v"
  by (auto simp: sql_insert_def map_of_eq_None_iff [symmetric] map_add_def
      split: if_splits option.splits)

text \<open>
  C4, as amended. In the graph backend a successful push of a new commit sets HEAD and
  the branch \<open>main\<close> to the new id if and only if HEAD was null or was the
  \<open>parent_id\<close> of the new commit, and leaves both as they were otherwise; the commit
  is recorded under its id in either case. The SQLite backend has no HEAD and no branch
  pointer: there a successful push of a new commit records the commit, and no more.
\<close>

theorem push_head_advance:
  "(push_commit_graph L fs d = (Inr (Pushed n), fs') \<longrightarrow>
      (\<exists>g'. read_graph fs' (get_repo_path (repo_name d)) = Some g' \<and>
         (let g = graph_or_empty fs (get_repo_path (repo_name d));
              fast_forward = (HEAD g = None \<or> HEAD g = parent_id d)
          in HEAD g' = (if fast_forward then Some (commit_id d) else HEAD g) \<and>
             map_of (branches g') ''main'' =
               (if fast_forward then Some (Some (commit_id d)) else map_of (branches g) ''main'') \<and>
             map_of (commits g') (commit_id d) =
               Some \<lparr>message = message d, author = author d, timestamp = timestamp d,
                     parent_id = parent_id d,
                     files = map (\<lambda>(p, fi). (p, sha1_hexdigest L (the (content fi))))
                               (req_files d)\<rparr>))) \<and>
   (push_commit_sqlite L sfs d = (Inr (Pushed m), sfs') \<longrightarrow>
      (\<exists>db'. sfs' (get_repo_path (repo_name d)) = Some db' \<and>
         map_of (commits_table db') (commit_id d) =
           Some \<lparr>message = message d, author = author d, timestamp = timestamp d,
                 parent_id = parent_id d\<rparr>))"
proof (intro conjI impI)
  assume "push_commit_graph L fs d = (Inr (Pushed n), fs')"
  then show "\<exists>g'. read_graph fs' (get_repo_path (repo_name d)) = Some g' \<and>
         (let g = graph_or_empty fs (get_repo_path (repo_name d));
              fast_forward = (HEAD g = None \<or> HEAD g = parent_id d)
          in HEAD g' = (if fast_forward then Some (commit_id d) else HEAD g) \<and>
             map_of (branches g') ''main'' =
               (if fast_forward then Some (Some (commit_id d)) else map_of (branches g) ''main'') \<and>
             map_of (commits g') (commit_id d) =
               Some \<lparr>message = message d, author = author d, timestamp = timestamp d,
                     parent_id = parent_id d,
                     files = map (\<lambda>(p, fi). (p, sha1_hexdigest L (the (content fi))))
                               (req_files d)\<rparr>)"
    by (auto simp: push_commit_graph_def Let_def graph_or_empty_def read_graph_def
        new_repo_dir_def advance_head_def update_conv' empty_graph_def
        dest!: store_files_hashes
        split: option.splits if_splits prod.splits sum.splits)
next
  assume "push_commit_sqlite L sfs d = (Inr (Pushed m), sfs')"
  then show "\<exists>db'. sfs' (get_repo_path (repo_name d)) = Some db' \<and>
         map_of (commits_table db') (commit_id d) =
           Some \<lparr>message = message d, author = author d, timestamp = timestamp d,
                 parent_id = parent_id d\<rparr>"
    by (auto simp: push_commit_sqlite_def Let_def dest: map_of_sql_insert
        split: option.splits if_splits prod.splits sum.splits)
qed

theorem push_head_advance_witness:
  "push_commit_graph example_lib graph_a commit_b = (Inr (Pushed 1), graph_ab) \<and>
   HEAD (graph_or_empty graph_a ''demo'') = parent_id commit_b \<and>
   (\<exists>g'. read_graph graph_ab ''demo'' = Some g' \<and> HEAD g' = Some ''B'' \<and>
      map_of (branches g') ''main'' = Some (Some ''B'') \<and>
      map_of (commits g') ''B'' \<noteq> None) \<and>
   push_commit_sqlite example_lib sqlite_a commit_b = (Inr (Pushed 1), sqlite_ab) \<and>
   (\<exists>db'. sqlite_ab ''demo'' = Some db' \<and> map_of (commits_table db') ''B'' \<noteq> None)"
proof -
  have h: "HEAD (graph_or_empty graph_a ''demo'') = parent_id commit_b"
    by (simp add: graph_or_empty_def read_graph_def graph_a_def graph_a_data_def commit_b_def)
  have n: "get_repo_path (repo_name commit_b) = ''demo''" "commit_id commit_b = ''B''"
    by (simp_all add: commit_b_def path_demo)
  from push_head_advance [of example_lib graph_a commit_b 1 graph_ab sqlite_a 1 sqlite_ab]
    push_b_graph_eval push_b_sqlite_eval h n
  show ?thesis
    by (auto simp: Let_def)
qed

text \<open>
  C4 as it is stated fails in the SQLite backend. The tip that backend reports is
  \<^verbatim>\<open>last_commit\<close>, the commit of greatest timestamp: it is \<open>A\<close>; the new commit
  \<open>B\<close> has \<open>A\<close> as its parent, is pushed with success, and the tip is still \<open>A\<close>.
\<close>

theorem push_head_advance_counterexample:
  "last_commit_sqlite sqlite_a_db = Some ''A'' \<and>
   parent_id commit_b = Some ''A'' \<and>
   push_commit_sqlite example_lib [''demo'' \<mapsto> sqlite_a_db] commit_b =
     (Inr (Pushed 1), [''demo'' \<mapsto> sqlite_ab_db]) \<and>
   last_commit_sqlite sqlite_ab_db \<noteq> Some (commit_id commit_b)"
  using push_b_sqlite_eval
  by (simp add: last_commit_sqlite_a last_commit_sqlite_ab commit_b_def sqlite_a_def sqlite_ab_def)

subsection \<open>A push whose parent is absent\<close>

lemma store_files_succeeds:
  "\<forall>(p, fi) \<in> set fs. content fi \<noteq> None \<Longrightarrow> \<exists>hs r1. store_files L r fs = (Inr hs, r1)"
proof (induction fs arbitrary: r)
  case Nil
  then show ?case by simp
next
  case (Cons a fs)
  obtain p fi where a: "a = (p, fi)" by (cases a)
  from Cons.prems a obtain c where c: "content fi = Some c" by auto
  obtain h r1 where s: "store_object L r c = (h, r1)" by (cases "store_object L r c")
  from Cons.prems have "\<forall>(p, fi) \<in> set fs. content fi \<noteq> None" by simp
  from Cons.IH [OF this, of r1] obtain hs r2 where "store_files L r1 fs = (Inr hs, r2)"
    by blast
  then show ?case by (simp add: a c s)
qed

lemma changes_loop_graph_no_parent:
  "set ps \<subseteq> fst ` set cf \<Longrightarrow> \<exists>chs. changes_loop_graph L [] cf ps = Inr chs"
proof (induction ps)
  case Nil
  then show ?case by simp
next
  case (Cons p ps)
  then obtain chs where "changes_loop_graph L [] cf ps = Inr chs" by auto
  moreover from Cons.prems obtain v where "map_of cf p = Some v"
    by (cases "map_of cf p") (auto simp: map_of_eq_None_iff)
  ultimately show ?case by (simp add: change_for_graph_def)
qed

lemma calculate_changes_graph_dangling:
  assumes "map_of (commits g) p = None"
  shows "\<exists>chs. calculate_changes_graph L r g (Some p) hs = Inr chs"
proof (cases "p = []")
  case True
  then show ?thesis by (simp add: calculate_changes_graph_def truthy_def)
next
  case False
  have "set (all_paths [] (with_content r hs)) \<subseteq> fst ` set (with_content r hs)"
    by (simp add: all_paths_def)
  from changes_loop_graph_no_parent [OF this] False assms show ?thesis
    by (simp add: calculate_changes_graph_def parent_files_graph_def truthy_def Let_def)
qed

lemma update_keys_set: "fst ` set (AList.update k v al) = insert k (fst ` set al)"
  by (induction al) auto

lemma push_graph_dangling:
  assumes v: "validate_repo_name (repo_name d)"
    and p: "parent_id d = Some p"
    and st: "fs (get_repo_path (repo_name d)) = None \<or>
             read_graph fs (get_repo_path (repo_name d)) \<noteq> None"
    and new: "commit_id d \<notin> fst ` set (commits (graph_or_empty fs (get_repo_path (repo_name d))))"
    and absent: "p \<notin> fst ` set (commits (graph_or_empty fs (get_repo_path (repo_name d))))"
    and cont: "\<forall>(path, fi) \<in> set (req_files d). content fi \<noteq> None"
  shows "\<exists>n fs' g'. push_commit_graph L fs d = (Inr (Pushed n), fs') \<and>
           read_graph fs' (get_repo_path (repo_name d)) = Some g' \<and>
           map_of (commits g') (commit_id d) =
             Some \<lparr>message = message d, author = author d, timestamp = timestamp d,
                   parent_id = Some p,
                   files = map (\<lambda>(p, fi). (p, sha1_hexdigest L (the (content fi)))) (req_files d)\<rparr> \<and>
           (p \<noteq> commit_id d \<longrightarrow> p \<notin> fst ` set (commits g'))"
proof -
  define k where "k = get_repo_path (repo_name d)"
  define g where "g = graph_or_empty fs k"
  define fs1 where "fs1 = (case fs k of None \<Rightarrow> fs(k \<mapsto> new_repo_dir) | Some r \<Rightarrow> fs)"
  from st obtain r where r: "fs1 k = Some r" "graph_json r = Some g"
    by (auto simp: fs1_def g_def k_def graph_or_empty_def read_graph_def new_repo_dir_def
        split: option.splits)
  from store_files_succeeds [OF cont, of L r] obtain hs r1
    where sf: "store_files L r (req_files d) = (Inr hs, r1)" by blast
  have hs: "hs = map (\<lambda>(p, fi). (p, sha1_hexdigest L (the (content fi)))) (req_files d)"
    using sf by (rule store_files_hashes)
  have "map_of (commits g) p = None"
    using absent by (simp add: g_def k_def map_of_eq_None_iff)
  from calculate_changes_graph_dangling [OF this, of L r1 hs] obtain chs
    where cc: "calculate_changes_graph L r1 g (Some p) hs = Inr chs" by blast
  have n: "commit_id d \<notin> fst ` set (commits g)"
    using new by (simp add: g_def k_def)
  have a: "p \<notin> fst ` set (commits g)"
    using absent by (simp add: g_def k_def)
  show ?thesis
    using v p r sf cc n a hs
    by (auto simp: push_commit_graph_def Let_def k_def [symmetric] fs1_def [symmetric]
        read_graph_def advance_head_def update_conv' update_keys_set)
qed

text \<open>
  C9, as amended. Let a push carry a commit id that the repository does not have and a
  non-empty \<open>parent_id\<close> that names no commit of the repository. The SQLite backend
  answers with the parent-not-found error and records nothing (it leaves the
  repository as it is, or creates it empty when there was none). The graph backend,
  when every file of the request has a content, accepts the push and records the commit
  with that parent id, which then names no commit of the repository.
\<close>

theorem push_missing_parent:
  assumes "validate_repo_name (repo_name d)" and "parent_id d = Some p" and "p \<noteq> []"
  shows
   "(\<forall>db. sfs (get_repo_path (repo_name d)) = Some db \<longrightarrow>
         commit_id d \<notin> fst ` set (commits_table db) \<longrightarrow> p \<notin> fst ` set (commits_table db) \<longrightarrow>
         push_commit_sqlite L sfs d = (Inl ParentNotFound, sfs)) \<and>
    (sfs (get_repo_path (repo_name d)) = None \<longrightarrow>
         push_commit_sqlite L sfs d =
           (Inl ParentNotFound, sfs(get_repo_path (repo_name d) \<mapsto> empty_db))) \<and>
    ((fs (get_repo_path (repo_name d)) = None \<or>
        read_graph fs (get_repo_path (repo_name d)) \<noteq> None) \<longrightarrow>
     commit_id d \<notin> fst ` set (commits (graph_or_empty fs (get_repo_path (repo_name d)))) \<longrightarrow>
     p \<notin> fst ` set (commits (graph_or_empty fs (get_repo_path (repo_name d)))) \<longrightarrow>
     (\<forall>(path, fi) \<in> set (req_files d). content fi \<noteq> None) \<longrightarrow>
       (\<exists>n fs' g'. push_commit_graph L fs d = (Inr (Pushed n), fs') \<and>
           read_graph fs' (get_repo_path (repo_name d)) = Some g' \<and>
           map_of (commits g') (commit_id d) =
             Some \<lparr>message = message d, author = author d, timestamp = timestamp d,
                   parent_id = Some p,
                   files = map (\<lambda>(p, fi). (p, sha1_hexdigest L (the (content fi)))) (req_files d)\<rparr> \<and>
           (p \<noteq> commit_id d \<longrightarrow> p \<notin> fst ` set (commits g'))))"
proof (intro conjI allI impI)
  fix db
  assume "sfs (get_repo_path (repo_name d)) = Some db"
    and "commit_id d \<notin> fst ` set (commits_table db)" and "p \<notin> fst ` set (commits_table db)"
  with assms show "push_commit_sqlite L sfs d = (Inl ParentNotFound, sfs)"
    by (simp add: push_commit_sqlite_def truthy_def)
next
  assume "sfs (get_repo_path (repo_name d)) = None"
  with assms show "push_commit_sqlite L sfs d =
      (Inl ParentNotFound, sfs(get_repo_path (repo_name d) \<mapsto> empty_db))"
    by (simp add: push_commit_sqlite_def truthy_def empty_db_def)
next
  assume "fs (get_repo_path (repo_name d)) = None \<or>
          read_graph fs (get_repo_path (repo_name d)) \<noteq> None"
    and "commit_id d \<notin> fst ` set (commits (graph_or_empty fs (get_repo_path (repo_name d))))"
    and "p \<notin> fst ` set (commits (graph_or_empty fs (get_repo_path (repo_name d))))"
    and "\<forall>(path, fi) \<in> set (req_files d). content fi \<noteq> None"
  with assms(1,2) show "\<exists>n fs' g'. push_commit_graph L fs d = (Inr (Pushed n), fs') \<and>
           read_graph fs' (get_repo_path (repo_name d)) = Some g' \<and>
           map_of (commits g') (commit_id d) =
             Some \<lparr>message = message d, author = author d, timestamp = timestamp d,
                   parent_id = Some p,
                   files = map (\<lambda>(p, fi). (p, sha1_hexdigest L (the (content fi)))) (req_files d)\<rparr> \<and>
           (p \<noteq> commit_id d \<longrightarrow> p \<notin> fst ` set (commits g'))"
    by (rule push_graph_dangling)
qed

theorem push_missing_parent_witness:
  "validate_repo_name (repo_name commit_d) \<and> parent_id commit_d = Some ''Z'' \<and> ''Z'' \<noteq> [] \<and>
   sqlite_a (get_repo_path (repo_name commit_d)) = Some sqlite_a_db \<and>
   commit_id commit_d \<notin> fst ` set (commits_table sqlite_a_db) \<and>
   ''Z'' \<notin> fst ` set (commits_table sqlite_a_db) \<and>
   push_commit_sqlite example_lib sqlite_a commit_d = (Inl ParentNotFound, sqlite_a) \<and>
   push_commit_sqlite example_lib Map.empty commit_d = (Inl ParentNotFound, [''demo'' \<mapsto> empty_db]) \<and>
   read_graph graph_a (get_repo_path (repo_name commit_d)) \<noteq> None \<and>
   commit_id commit_d \<notin> fst ` set (commits (graph_or_empty graph_a ''demo'')) \<and>
   ''Z'' \<notin> fst ` set (commits (graph_or_empty graph_a ''demo'')) \<and>
   map (\<lambda>(path, fi). content fi) (req_files commit_d) = [Some ''v1''] \<and>
   (\<exists>n fs' g' cd. push_commit_graph example_lib graph_a commit_d = (Inr (Pushed n), fs') \<and>
       read_graph fs' ''demo'' = Some g' \<and> map_of (commits g') ''D'' = Some cd \<and>
       parent_id cd = Some ''Z'' \<and> ''Z'' \<notin> fst ` set (commits g'))"
proof -
  have v: "validate_repo_name (repo_name commit_d)"
    by (simp add: commit_d_def valid_demo)
  have p: "parent_id commit_d = Some ''Z''"
    by (simp add: commit_d_def)
  have k: "get_repo_path (repo_name commit_d) = ''demo''"
    by (simp add: commit_d_def path_demo)
  have i: "commit_id commit_d = ''D''"
    by (simp add: commit_d_def)
  have g: "graph_or_empty graph_a ''demo'' = graph_a_data" "read_graph graph_a ''demo'' = Some graph_a_data"
    by (simp_all add: graph_or_empty_def read_graph_def graph_a_def)
  have c: "\<forall>(path, fi) \<in> set (req_files commit_d). content fi \<noteq> None"
    by (simp add: commit_d_def)
  have z: "''Z'' \<noteq> []" by simp
  from push_missing_parent [OF v p z, of sqlite_a example_lib graph_a]
  have s1: "push_commit_sqlite example_lib sqlite_a commit_d = (Inl ParentNotFound, sqlite_a)"
    and g1: "\<exists>n fs' g'. push_commit_graph example_lib graph_a commit_d = (Inr (Pushed n), fs') \<and>
           read_graph fs' ''demo'' = Some g' \<and>
           map_of (commits g') ''D'' =
             Some \<lparr>message = message commit_d, author = author commit_d,
                   timestamp = timestamp commit_d, parent_id = Some ''Z'',
                   files = map (\<lambda>(p, fi). (p, sha1_hexdigest example_lib (the (content fi))))
                             (req_files commit_d)\<rparr> \<and>
           (''Z'' \<noteq> ''D'' \<longrightarrow> ''Z'' \<notin> fst ` set (commits g'))"
    using c by (simp_all add: k i g sqlite_a_def sqlite_a_db_def graph_a_data_def)
  from push_missing_parent [OF v p z, of Map.empty example_lib graph_a]
  have s2: "push_commit_sqlite example_lib Map.empty commit_d =
              (Inl ParentNotFound, [''demo'' \<mapsto> empty_db])"
    by (simp add: k)
  from g1 have g2: "\<exists>n fs' g' cd. push_commit_graph example_lib graph_a commit_d = (Inr (Pushed n), fs') \<and>
       read_graph fs' ''demo'' = Some g' \<and> map_of (commits g') ''D'' = Some cd \<and>
       parent_id cd = Some ''Z'' \<and> ''Z'' \<notin> fst ` set (commits g')"
    by fastforce
  have c': "map (\<lambda>(path, fi). content fi) (req_files commit_d) = [Some ''v1'']"
    by (simp add: commit_d_def)
  show ?thesis
    using v p s1 s2 g2 c'
    by (simp add: k i g sqlite_a_def sqlite_a_db_def graph_a_data_def)
qed

text \<open>
  C9 as it is stated fails for the parent id \<^verbatim>\<open>''\<close>: it is not null and names no
  commit of the repository, and the SQLite backend accepts the push and records
  commit \<open>E\<close> (its check \<^verbatim>\<open>if parent_id:\<close> takes the empty string for no parent).
\<close>

theorem push_missing_parent_counterexample:
  "parent_id commit_e = Some [] \<and>
   [] \<notin> fst ` set (commits_table sqlite_a_db) \<and>
   commit_id commit_e \<notin> fst ` set (commits_table sqlite_a_db) \<and>
   fst (push_commit_sqlite example_lib [''demo'' \<mapsto> sqlite_a_db] commit_e) = Inr (Pushed 1) \<and>
   map_option (\<lambda>db. map_of (commits_table db) ''E'')
     (snd (push_commit_sqlite example_lib [''demo'' \<mapsto> sqlite_a_db] commit_e) ''demo'') =
   Some (Some \<lparr>message = ''third'', author = ''eve'', timestamp = ''2024-01-02T08:00:00'',
               parent_id = Some []\<rparr>)"
  by (simp add: push_commit_sqlite_def commit_e_def valid_demo path_demo
      sql_insert_def calculate_changes_sqlite_def truthy_def Let_def sqlite_a_db_def)

lemma valid_copy: "validate_repo_name ''copy''"
  by (simp add: validate_repo_name_def name_char_def)

lemma path_copy: "get_repo_path ''copy'' = ''copy''"
  by (simp add: get_repo_path_def sanitize_path_def strip_def name_char_def space_char_def)

subsection \<open>Pull writes to the target only\<close>

lemma copy_files_frame:
  "copy_files L ks kt fl fs = (res, fs') \<Longrightarrow> k \<noteq> kt \<Longrightarrow> fs' k = fs k"
proof (induction fl arbitrary: fs res fs')
  case Nil
  then show ?case by simp
next
  case (Cons a fl)
  obtain p h where a: "a = (p, h)" by (cases a)
  show ?case
    using Cons.prems
    by (auto simp: a dest!: Cons.IH split: option.splits prod.splits sum.splits)
qed

lemma pull_loop_graph_frame:
  "pull_loop_graph L ks kt sg order st = (e, st') \<Longrightarrow> k \<noteq> kt \<Longrightarrow> fst st' k = fst st k"
proof (induction order arbitrary: st e st')
  case Nil
  then show ?case by simp
next
  case (Cons c order)
  obtain fs tg ids pulled skipped where st: "st = (fs, tg, ids, pulled, skipped)"
    by (cases st)
  show ?case
    using Cons.prems Cons.IH
    by (auto simp: st Let_def dest: copy_files_frame
        split: option.splits prod.splits sum.splits if_splits)
qed

text \<open>When every commit of the source is in the target already, the loop writes nothing.\<close>

lemma pull_loop_graph_all_present:
  "pull_loop_graph L ks kt sg order (fs, tg, ids, pulled, skipped) = (e, st') \<Longrightarrow>
   fst ` set (commits sg) \<subseteq> set ids \<Longrightarrow>
   fst st' = fs \<and> (e = None \<longrightarrow> fst (snd st') = tg)"
proof (induction order arbitrary: skipped e st')
  case Nil
  then show ?case by auto
next
  case (Cons c order)
  show ?case
  proof (cases "c \<in> set ids")
    case True
    with Cons.prems Cons.IH show ?thesis by simp
  next
    case False
    with Cons.prems have "map_of (commits sg) c = None"
      by (auto simp: map_of_eq_None_iff)
    with False Cons.prems show ?thesis by auto
  qed
qed

lemma write_graph_same:
  "read_graph fs k = Some g \<Longrightarrow> write_graph fs k g = fs"
  by (auto simp: read_graph_def write_graph_def split: option.splits)

lemma write_graph_frame: "k \<noteq> kt \<Longrightarrow> write_graph fs kt g k = fs k"
  by (simp add: write_graph_def split: option.splits)

lemma create_repo_graph_frame:
  "k \<noteq> get_repo_path n \<Longrightarrow> snd (create_repo_graph fs n) k = fs k"
  by (simp add: create_repo_graph_def split: option.splits)

lemma pull_commits_graph_frame:
  assumes "k \<noteq> get_repo_path target_repo"
  shows "snd (pull_commits_graph L fs source_repo target_repo) k = fs k"
proof -
  have *: "\<And>fs1 sg tg. fs1 k = fs k \<Longrightarrow>
    snd (case pull_loop_graph L (get_repo_path source_repo) (get_repo_path target_repo) sg
                  (commit_order (commits sg)) (fs1, tg, map fst (commits tg), 0, 0) of
           (Some e, (fs2, tg', ids, pulled, skipped)) \<Rightarrow> (Inl (ServerError e), fs2)
         | (None, (fs2, tg', ids, pulled, skipped)) \<Rightarrow>
             (Inr (pulled, skipped), write_graph fs2 (get_repo_path target_repo) tg')) k = fs k"
    using assms
    by (auto split: prod.splits option.splits
        dest!: pull_loop_graph_frame [where k = k] simp: write_graph_frame)
  show ?thesis
    using assms
    by (auto simp: pull_commits_graph_def Let_def * create_repo_graph_frame
        split: option.splits)
qed

lemma pull_commits_graph_same_repo:
  assumes "get_repo_path source_repo = get_repo_path target_repo"
  shows "snd (pull_commits_graph L fs source_repo target_repo) = fs"
proof (cases "\<not> validate_repo_name source_repo \<or> \<not> validate_repo_name target_repo")
  case True
  then show ?thesis by (auto simp: pull_commits_graph_def)
next
  case False
  show ?thesis
  proof (cases "read_graph fs (get_repo_path target_repo)")
    case None
    with False assms show ?thesis by (simp add: pull_commits_graph_def)
  next
    case (Some g)
    obtain e st' where l: "pull_loop_graph L (get_repo_path target_repo) (get_repo_path target_repo) g
           (commit_order (commits g)) (fs, g, map fst (commits g), 0, 0) = (e, st')"
      by (cases "pull_loop_graph L (get_repo_path target_repo) (get_repo_path target_repo) g
           (commit_order (commits g)) (fs, g, map fst (commits g), 0, 0)")
    from pull_loop_graph_all_present [OF l]
    have r: "fst st' = fs" "e = None \<longrightarrow> fst (snd st') = g"
      by simp_all
    obtain fs2 tg' ids pulled skipped where st': "st' = (fs2, tg', ids, pulled, skipped)"
      by (cases st')
    show ?thesis
      using False assms Some l r
      by (cases e) (simp_all add: pull_commits_graph_def st' write_graph_same)
  qed
qed

lemma pull_commits_sqlite_frame:
  assumes "k \<noteq> get_repo_path target_repo"
  shows "snd (pull_commits_sqlite fs source_repo target_repo) k = fs k"
  using assms
  by (auto simp: pull_commits_sqlite_def Let_def create_repo_sqlite_def
      split: option.splits prod.splits)

lemma pull_loop_sqlite_all_present:
  "pull_loop_sqlite sdb rows (tdb, ids, pulled, skipped) = (e, st') \<Longrightarrow>
   fst ` set rows \<subseteq> set ids \<Longrightarrow> fst st' = tdb"
proof (induction rows arbitrary: skipped e st')
  case Nil
  then show ?case by auto
next
  case (Cons a rows)
  obtain c row where a: "a = (c, row)" by (cases a)
  with Cons.prems have "c \<in> set ids" by simp
  with Cons.prems Cons.IH a show ?case by simp
qed

lemma pull_commits_sqlite_same_repo:
  assumes "get_repo_path source_repo = get_repo_path target_repo"
  shows "snd (pull_commits_sqlite fs source_repo target_repo) = fs"
proof (cases "\<not> validate_repo_name source_repo \<or> \<not> validate_repo_name target_repo")
  case True
  then show ?thesis by (auto simp: pull_commits_sqlite_def)
next
  case False
  show ?thesis
  proof (cases "fs (get_repo_path target_repo)")
    case None
    with False assms show ?thesis by (simp add: pull_commits_sqlite_def)
  next
    case (Some db)
    obtain e st' where l: "pull_loop_sqlite db (source_commits_sqlite db)
           (db, map fst (commits_table db), 0, 0) = (e, st')"
      by (cases "pull_loop_sqlite db (source_commits_sqlite db)
           (db, map fst (commits_table db), 0, 0)")
    have "fst ` set (source_commits_sqlite db) \<subseteq> set (map fst (commits_table db))"
      by (simp add: source_commits_sqlite_def)
    from pull_loop_sqlite_all_present [OF l this] have r: "fst st' = db" .
    obtain tdb' ids pulled skipped where st': "st' = (tdb', ids, pulled, skipped)"
      by (cases st')
    show ?thesis
      using False assms Some l r
      by (cases e) (auto simp: pull_commits_sqlite_def st')
  qed
qed

text \<open>
  C10. Whatever the source and the target are, \<open>pull_commits\<close> leaves the source
  repository as it was, in both backends: its graph (commits, change records, branches
  and HEAD) and object files, or its tables. Every repository other than the target
  is left as it was.
\<close>

theorem pull_keeps_source:
  "snd (pull_commits_graph L fs source_repo target_repo) (get_repo_path source_repo)
     = fs (get_repo_path source_repo) \<and>
   snd (pull_commits_sqlite sfs source_repo target_repo) (get_repo_path source_repo)
     = sfs (get_repo_path source_repo) \<and>
   (\<forall>k. k \<noteq> get_repo_path target_repo \<longrightarrow>
      snd (pull_commits_graph L fs source_repo target_repo) k = fs k \<and>
      snd (pull_commits_sqlite sfs source_repo target_repo) k = sfs k)"
proof (intro conjI allI impI)
  show "snd (pull_commits_graph L fs source_repo target_repo) (get_repo_path source_repo)
     = fs (get_repo_path source_repo)"
    by (cases "get_repo_path source_repo = get_repo_path target_repo")
       (simp_all add: pull_commits_graph_same_repo pull_commits_graph_frame)
  show "snd (pull_commits_sqlite sfs source_repo target_repo) (get_repo_path source_repo)
     = sfs (get_repo_path source_repo)"
    by (cases "get_repo_path source_repo = get_repo_path target_repo")
       (simp_all add: pull_commits_sqlite_same_repo pull_commits_sqlite_frame)
next
  fix k
  assume "k \<noteq> get_repo_path target_repo"
  then show "snd (pull_commits_graph L fs source_repo target_repo) k = fs k"
    and "snd (pull_commits_sqlite sfs source_repo target_repo) k = sfs k"
    by (simp_all add: pull_commits_graph_frame pull_commits_sqlite_frame)
qed

lemma pull_graph_eval:
  "fst (pull_commits_graph example_lib graph_ab ''demo'' ''copy'') = Inr (2, 0)"
  by (simp add: pull_commits_graph_def valid_demo valid_copy path_demo path_copy
      read_graph_def graph_ab_def graph_ab_data_def create_repo_graph_def new_repo_dir_def
      empty_graph_def commit_order_def parent_of_def parent_missing_def truthy_def
      get_object_content_def store_object_def calculate_hash_def example_lib_def
      advance_head_def write_graph_def Let_def)

lemma pull_sqlite_eval:
  "fst (pull_commits_sqlite sqlite_ab ''demo'' ''copy'') = Inr (1, 0)"
  by (simp add: pull_commits_sqlite_def valid_demo valid_copy path_demo path_copy
      sqlite_ab_def sqlite_ab_db_def create_repo_sqlite_def empty_db_def
      source_commits_sqlite_def parent_missing_def truthy_def sql_insert_def rows_of_def
      Let_def)

theorem pull_keeps_source_witness:
  "''demo'' \<noteq> get_repo_path ''copy'' \<and>
   fst (pull_commits_graph example_lib graph_ab ''demo'' ''copy'') = Inr (2, 0) \<and>
   snd (pull_commits_graph example_lib graph_ab ''demo'' ''copy'') ''demo'' = graph_ab ''demo'' \<and>
   fst (pull_commits_sqlite sqlite_ab ''demo'' ''copy'') = Inr (1, 0) \<and>
   snd (pull_commits_sqlite sqlite_ab ''demo'' ''copy'') ''demo'' = sqlite_ab ''demo''"
  using pull_keeps_source [of example_lib graph_ab "''demo''" "''copy''" sqlite_ab]
    pull_graph_eval pull_sqlite_eval
  by (simp add: path_copy path_demo)

subsection \<open>The change computation of the two backends\<close>

lemma change_for_same:
  "change_for_graph L pf cf p = change_for_sqlite L pf cf p"
  by (simp add: change_for_graph_def change_for_sqlite_def split: option.splits)

lemma changes_loop_same:
  "changes_loop_graph L pf cf ps = changes_loop_sqlite L pf cf ps"
  by (induction ps) (simp_all add: change_for_same split: sum.splits option.splits)

lemma change_for_graph_cong:
  "map_of pf = map_of pf' \<Longrightarrow> map_of cf = map_of cf' \<Longrightarrow>
   change_for_graph L pf cf p = change_for_graph L pf' cf' p"
  by (simp add: change_for_graph_def)

lemma change_for_graph_exn:
  "change_for_graph L pf cf p = Inl e \<Longrightarrow> p \<in> fst ` set pf \<union> fst ` set cf \<Longrightarrow>
   e = AttributeError"
  by (fastforce simp: change_for_graph_def map_of_eq_None_iff image_iff
      split: option.splits if_splits)

text \<open>What the loop returns, read as a mapping, whatever the order of the paths.\<close>

lemma changes_loop_graph_lookup:
  "changes_loop_graph L pf cf ps = Inr chs \<Longrightarrow>
   map_of chs p =
     (if p \<in> set ps
      then (case change_for_graph L pf cf p of Inr (Some c) \<Rightarrow> Some c | _ \<Rightarrow> None)
      else None)"
proof (induction ps arbitrary: chs)
  case Nil
  then show ?case by simp
next
  case (Cons q ps)
  then show ?case
    by (auto split: sum.splits option.splits if_splits)
qed

lemma changes_loop_graph_keys:
  "changes_loop_graph L pf cf ps = Inr chs \<Longrightarrow>
   map fst chs = filter (\<lambda>p. \<exists>c. change_for_graph L pf cf p = Inr (Some c)) ps"
proof (induction ps arbitrary: chs)
  case Nil
  then show ?case by simp
next
  case (Cons q ps)
  then show ?case
    by (auto split: sum.splits option.splits if_splits)
qed

lemma changes_loop_graph_fails:
  "(\<exists>e. changes_loop_graph L pf cf ps = Inl e) \<longleftrightarrow>
   (\<exists>p \<in> set ps. \<exists>e. change_for_graph L pf cf p = Inl e)"
  by (induction ps) (auto split: sum.splits option.splits)

lemma changes_loop_graph_exn:
  "changes_loop_graph L pf cf ps = Inl e \<Longrightarrow> set ps \<subseteq> fst ` set pf \<union> fst ` set cf \<Longrightarrow>
   e = AttributeError"
proof (induction ps)
  case Nil
  then show ?case by simp
next
  case (Cons q ps)
  then show ?case
    by (auto split: sum.splits option.splits dest: change_for_graph_exn)
qed

lemma keys_of_map_of: "fst ` set al = dom (map_of al)"
  by (simp add: dom_map_of_conv_image_fst)

lemma changes_loop_graph_order:
  assumes pf: "map_of pf = map_of pf'" and cf: "map_of cf = map_of cf'"
    and ps: "set ps = fst ` set pf \<union> fst ` set cf"
    and ps': "set ps' = fst ` set pf' \<union> fst ` set cf'"
  shows "map_sum id map_of (changes_loop_graph L pf cf ps) =
         map_sum id map_of (changes_loop_graph L pf' cf' ps')"
proof -
  have same: "set ps = set ps'"
    using pf cf ps ps' by (simp add: keys_of_map_of)
  have cong: "\<And>p. change_for_graph L pf cf p = change_for_graph L pf' cf' p"
    by (rule change_for_graph_cong [OF pf cf])
  show ?thesis
  proof (cases "changes_loop_graph L pf cf ps")
    case (Inl e)
    then have e: "e = AttributeError"
      using ps by (auto dest: changes_loop_graph_exn)
    from Inl have "\<exists>p \<in> set ps. \<exists>e. change_for_graph L pf cf p = Inl e"
      using changes_loop_graph_fails [of L pf cf ps] by blast
    then have "\<exists>p \<in> set ps'. \<exists>e. change_for_graph L pf' cf' p = Inl e"
      using same cong by simp
    then obtain e' where e': "changes_loop_graph L pf' cf' ps' = Inl e'"
      using changes_loop_graph_fails [of L pf' cf' ps'] by blast
    then have "e' = AttributeError"
      using ps' by (auto dest: changes_loop_graph_exn)
    with Inl e e' show ?thesis by simp
  next
    case (Inr chs)
    have "\<not> (\<exists>e. changes_loop_graph L pf' cf' ps' = Inl e)"
    proof
      assume "\<exists>e. changes_loop_graph L pf' cf' ps' = Inl e"
      then have "\<exists>p \<in> set ps'. \<exists>e. change_for_graph L pf' cf' p = Inl e"
        using changes_loop_graph_fails [of L pf' cf' ps'] by blast
      then have "\<exists>p \<in> set ps. \<exists>e. change_for_graph L pf cf p = Inl e"
        using same cong by simp
      then have "\<exists>e. changes_loop_graph L pf cf ps = Inl e"
        using changes_loop_graph_fails [of L pf cf ps] by blast
      with Inr show False by simp
    qed
    then obtain chs' where chs': "changes_loop_graph L pf' cf' ps' = Inr chs'"
      by (cases "changes_loop_graph L pf' cf' ps'") auto
    have "map_of chs = map_of chs'"
    proof
      fix p
      show "map_of chs p = map_of chs' p"
        using changes_loop_graph_lookup [OF Inr, of p]
          changes_loop_graph_lookup [OF chs', of p] same cong
        by simp
    qed
    with Inr chs' show ?thesis by simp
  qed
qed

lemma map_of_with_content:
  "map_of (with_content r fh) p =
     map_option (\<lambda>h. \<lparr>hash = h, content = get_object_content r h\<rparr>) (map_of fh p)"
  by (induction fh) (auto simp: with_content_def)

lemma map_of_added_graph:
  "map_of (map (\<lambda>(file_path, file_hash).
            (file_path, \<lparr>status = added, diff = None, previous_hash = None,
                         current_hash = Some file_hash\<rparr>)) fh) p =
   map_option (\<lambda>h. \<lparr>status = added, diff = None, previous_hash = None,
                     current_hash = Some h\<rparr>) (map_of fh p)"
  by (induction fh) auto

lemma map_of_added_sqlite:
  "map_of (map (\<lambda>(file_path, file_info).
            (file_path, \<lparr>status = added, diff = None, previous_hash = None,
                         current_hash = Some (hash file_info)\<rparr>)) cf) p =
   map_option (\<lambda>fi. \<lparr>status = added, diff = None, previous_hash = None,
                      current_hash = Some (hash fi)\<rparr>) (map_of cf p)"
  by (induction cf) auto

lemma set_all_paths: "set (all_paths pf cf) = fst ` set pf \<union> fst ` set cf"
  by (simp add: all_paths_def)

text \<open>
  C7, as amended. When the parent files and the current files that the two backends
  work on are the same mappings from path to hash and content, \<open>calculate_changes\<close>
  of the graph backend and of the SQLite backend give the same result: the same
  exception, or the same change set as a mapping from path to change record, with the
  same diff text for every modified path. The loop gives this mapping for every order
  in which the set of paths is iterated, so the mapping is the same across runs; the
  order of the records in the dict is not. The diff of a modified path is the text
  \<^verbatim>\<open>'\n'.join(difflib.unified_diff(old.splitlines(), new.splitlines(), 'a/' + path,
  'b/' + path, lineterm=''))\<close> in both.
\<close>

theorem calculate_changes_backends_agree:
  "((truthy par \<longrightarrow>
       map_of (parent_files_graph r g (the par)) = map_of (rows_of (files_table db) (the par))) \<longrightarrow>
    map_of (with_content r files_hashes) = map_of current_files \<longrightarrow>
      map_sum id map_of (calculate_changes_graph L r g par files_hashes) =
      map_sum id map_of (calculate_changes_sqlite L db par current_files)) \<and>
   (map_of pf = map_of pf' \<longrightarrow> map_of cf = map_of cf' \<longrightarrow>
    set ps = fst ` set pf \<union> fst ` set cf \<longrightarrow> set ps' = fst ` set pf' \<union> fst ` set cf' \<longrightarrow>
      map_sum id map_of (changes_loop_graph L pf cf ps) =
      map_sum id map_of (changes_loop_sqlite L pf' cf' ps')) \<and>
   (\<forall>chs p c. changes_loop_sqlite L pf cf ps = Inr chs \<longrightarrow> map_of chs p = Some c \<longrightarrow>
      status c = modified \<longrightarrow>
      (\<exists>old new. map_option content (map_of pf p) = Some (Some old) \<and>
                  map_option content (map_of cf p) = Some (Some new) \<and>
                  diff c = Some (join_lines (unified_diff L (splitlines L old) (splitlines L new)
                                   (''a/'' @ p) (''b/'' @ p)))))"
proof (intro conjI allI impI)
  assume pfe: "truthy par \<longrightarrow>
       map_of (parent_files_graph r g (the par)) = map_of (rows_of (files_table db) (the par))"
    and cfe: "map_of (with_content r files_hashes) = map_of current_files"
  show "map_sum id map_of (calculate_changes_graph L r g par files_hashes) =
        map_sum id map_of (calculate_changes_sqlite L db par current_files)"
  proof (cases "truthy par")
    case False
    have "\<And>p. map_of files_hashes p = map_option hash (map_of current_files p)"
    proof -
      fix p
      have "map_option hash (map_of (with_content r files_hashes) p) = map_of files_hashes p"
        by (simp add: map_of_with_content option.map_comp comp_def option.map_ident)
      then show "map_of files_hashes p = map_option hash (map_of current_files p)"
        by (simp add: cfe)
    qed
    then have "\<And>p. map_of (map (\<lambda>(file_path, file_hash).
            (file_path, \<lparr>status = added, diff = None, previous_hash = None,
                         current_hash = Some file_hash\<rparr>)) files_hashes) p =
        map_of (map (\<lambda>(file_path, file_info).
            (file_path, \<lparr>status = added, diff = None, previous_hash = None,
                         current_hash = Some (hash file_info)\<rparr>)) current_files) p"
      by (simp add: map_of_added_graph map_of_added_sqlite option.map_comp comp_def)
    then show ?thesis
      using False
      by (simp add: calculate_changes_graph_def calculate_changes_sqlite_def fun_eq_iff)
  next
    case True
    with pfe have pf: "map_of (parent_files_graph r g (the par)) =
        map_of (rows_of (files_table db) (the par))"
      by simp
    from changes_loop_graph_order [OF pf cfe set_all_paths set_all_paths, of L] True
    show ?thesis
      by (simp add: calculate_changes_graph_def calculate_changes_sqlite_def Let_def
          changes_loop_same)
  qed
next
  assume "map_of pf = map_of pf'" and "map_of cf = map_of cf'"
    and "set ps = fst ` set pf \<union> fst ` set cf" and "set ps' = fst ` set pf' \<union> fst ` set cf'"
  from changes_loop_graph_order [OF this, of L]
  show "map_sum id map_of (changes_loop_graph L pf cf ps) =
        map_sum id map_of (changes_loop_sqlite L pf' cf' ps')"
    by (simp add: changes_loop_same)
next
  fix chs p c
  assume l: "changes_loop_sqlite L pf cf ps = Inr chs" and m: "map_of chs p = Some c"
    and s: "status c = modified"
  from l have "changes_loop_graph L pf cf ps = Inr chs"
    by (simp add: changes_loop_same)
  from changes_loop_graph_lookup [OF this, of p] m
  have "change_for_graph L pf cf p = Inr (Some c)"
    by (auto split: if_splits sum.splits option.splits)
  with s show "\<exists>old new. map_option content (map_of pf p) = Some (Some old) \<and>
                  map_option content (map_of cf p) = Some (Some new) \<and>
                  diff c = Some (join_lines (unified_diff L (splitlines L old) (splitlines L new)
                                   (''a/'' @ p) (''b/'' @ p)))"
    by (auto simp: change_for_graph_def split: option.splits if_splits)
qed


lemma changes_pc_graph:
  "changes_loop_graph example_lib files_p files_c [''f.txt'', ''g.txt'', ''h.txt''] = Inr changes_pc"
  by (simp add: files_p_def files_c_def changes_pc_def change_for_graph_def example_lib_def)

theorem calculate_changes_backends_agree_witness:
  "truthy (Some ''P'') \<and>
   map_of (parent_files_graph dir_pc graph_p ''P'') = map_of (rows_of (files_table db_p) ''P'') \<and>
   map_of (with_content dir_pc (map (\<lambda>(p, fi). (p, hash fi)) files_c)) = map_of (rev files_c) \<and>
   map_sum id map_of (calculate_changes_graph example_lib dir_pc graph_p (Some ''P'')
                        (map (\<lambda>(p, fi). (p, hash fi)) files_c)) =
   map_sum id map_of (calculate_changes_sqlite example_lib db_p (Some ''P'') (rev files_c)) \<and>
   map_of files_p = map_of (rev files_p) \<and> map_of files_c = map_of (rev files_c) \<and>
   set [''f.txt'', ''g.txt'', ''h.txt''] = fst ` set files_p \<union> fst ` set files_c \<and>
   set [''h.txt'', ''g.txt'', ''f.txt''] = fst ` set (rev files_p) \<union> fst ` set (rev files_c) \<and>
   changes_loop_graph example_lib files_p files_c [''f.txt'', ''g.txt'', ''h.txt''] = Inr changes_pc \<and>
   map_sum id map_of (changes_loop_sqlite example_lib (rev files_p) (rev files_c)
                        [''h.txt'', ''g.txt'', ''f.txt'']) = Inr (map_of changes_pc) \<and>
   changes_loop_sqlite example_lib files_p files_c [''f.txt'', ''g.txt'', ''h.txt''] = Inr changes_pc \<and>
   map_option diff (map_of changes_pc ''f.txt'') =
     Some (Some (join_lines (unified_diff example_lib (splitlines example_lib ''v1'')
                    (splitlines example_lib ''v2'') ''a/f.txt'' ''b/f.txt'')))"
proof -
  have t: "truthy (Some ''P'')" by (simp add: truthy_def)
  have p: "map_of files_p = map_of (rev files_p)"
    by (rule ext) (simp add: files_p_def)
  have c: "map_of files_c = map_of (rev files_c)"
    by (rule ext) (simp add: files_c_def)
  have pg: "map_of (parent_files_graph dir_pc graph_p ''P'') = map_of (rows_of (files_table db_p) ''P'')"
    by (rule ext)
       (simp add: parent_files_graph_def graph_p_def files_p_def with_content_def
          get_object_content_def dir_pc_def db_p_def rows_of_def)
  have cg: "map_of (with_content dir_pc (map (\<lambda>(p, fi). (p, hash fi)) files_c)) = map_of (rev files_c)"
    by (rule ext)
       (simp add: files_c_def with_content_def get_object_content_def dir_pc_def)
  have s1: "set [''f.txt'', ''g.txt'', ''h.txt''] = fst ` set files_p \<union> fst ` set files_c"
    by (auto simp: files_p_def files_c_def)
  have s2: "set [''h.txt'', ''g.txt'', ''f.txt''] = fst ` set (rev files_p) \<union> fst ` set (rev files_c)"
    by (auto simp: files_p_def files_c_def)
  have l: "changes_loop_sqlite example_lib files_p files_c [''f.txt'', ''g.txt'', ''h.txt''] = Inr changes_pc"
    using changes_pc_graph by (simp add: changes_loop_same)
  have m: "map_of changes_pc ''f.txt'' =
     Some \<lparr>status = modified,
           diff = Some (join_lines [''--- a/f.txt'', ''+++ b/f.txt'', ''-v1'', ''+v2'']),
           previous_hash = Some ''sha1:v1'', current_hash = Some ''sha1:v2''\<rparr>"
    by (simp add: changes_pc_def)
  from calculate_changes_backends_agree [of "Some ''P''" dir_pc graph_p db_p
      "map (\<lambda>(p, fi). (p, hash fi)) files_c" "rev files_c" example_lib
      files_p "rev files_p" files_c "rev files_c"
      "[''f.txt'', ''g.txt'', ''h.txt'']" "[''h.txt'', ''g.txt'', ''f.txt'']"]
    t p c pg cg s1 s2 l m changes_pc_graph
  show ?thesis
    by (simp add: example_lib_def)
qed

lemma changes_graph_pc:
  "calculate_changes_graph example_lib dir_pc graph_p (Some ''P'')
     (map (\<lambda>(p, fi). (p, hash fi)) files_c) =
   Inr [(''g.txt'', \<lparr>status = deleted, diff = None, previous_hash = Some ''sha1:w'',
                     current_hash = None\<rparr>),
        (''f.txt'', \<lparr>status = modified,
                     diff = Some (join_lines [''--- a/f.txt'', ''+++ b/f.txt'', ''-v1'', ''+v2'']),
                     previous_hash = Some ''sha1:v1'', current_hash = Some ''sha1:v2''\<rparr>),
        (''h.txt'', \<lparr>status = added, diff = None, previous_hash = None,
                     current_hash = Some ''sha1:x''\<rparr>)]"
  by (simp add: calculate_changes_graph_def truthy_def parent_files_graph_def graph_p_def
      empty_graph_def files_p_def files_c_def with_content_def get_object_content_def
      dir_pc_def all_paths_def change_for_graph_def example_lib_def Let_def)

lemma changes_sqlite_pc:
  "calculate_changes_sqlite example_lib db_p (Some ''P'') (rev files_c) =
   Inr [(''g.txt'', \<lparr>status = deleted, diff = None, previous_hash = Some ''sha1:w'',
                     current_hash = None\<rparr>),
        (''h.txt'', \<lparr>status = added, diff = None, previous_hash = None,
                     current_hash = Some ''sha1:x''\<rparr>),
        (''f.txt'', \<lparr>status = modified,
                     diff = Some (join_lines [''--- a/f.txt'', ''+++ b/f.txt'', ''-v1'', ''+v2'']),
                     previous_hash = Some ''sha1:v1'', current_hash = Some ''sha1:v2''\<rparr>)]"
  by (simp add: calculate_changes_sqlite_def truthy_def db_p_def empty_db_def
      files_p_def files_c_def rows_of_def all_paths_def change_for_sqlite_def
      example_lib_def Let_def)

text \<open>
  C7 as it is stated fails for the change sets as they are stored, record after record.
  The two backends get the same parent files and the same current files as mappings,
  in dicts of different insertion order, and return the same three records in
  different orders; and the loop of one backend returns them in different orders for
  two orders in which the same set of paths is iterated, as two runs may do.
\<close>

theorem calculate_changes_backends_agree_counterexample:
  "map_of (parent_files_graph dir_pc graph_p ''P'') = map_of (rows_of (files_table db_p) ''P'') \<and>
   map_of (with_content dir_pc (map (\<lambda>(p, fi). (p, hash fi)) files_c)) = map_of (rev files_c) \<and>
   map fst (projr (calculate_changes_graph example_lib dir_pc graph_p (Some ''P'')
                     (map (\<lambda>(p, fi). (p, hash fi)) files_c)))
     = [''g.txt'', ''f.txt'', ''h.txt''] \<and>
   map fst (projr (calculate_changes_sqlite example_lib db_p (Some ''P'') (rev files_c)))
     = [''g.txt'', ''h.txt'', ''f.txt''] \<and>
   calculate_changes_graph example_lib dir_pc graph_p (Some ''P'')
       (map (\<lambda>(p, fi). (p, hash fi)) files_c)
     \<noteq> calculate_changes_sqlite example_lib db_p (Some ''P'') (rev files_c) \<and>
   set [''f.txt'', ''g.txt'', ''h.txt''] = set [''h.txt'', ''g.txt'', ''f.txt''] \<and>
   changes_loop_graph example_lib files_p files_c [''f.txt'', ''g.txt'', ''h.txt'']
     \<noteq> changes_loop_graph example_lib files_p files_c [''h.txt'', ''g.txt'', ''f.txt'']"
proof -
  have pg: "map_of (parent_files_graph dir_pc graph_p ''P'') = map_of (rows_of (files_table db_p) ''P'')"
    by (rule ext)
       (simp add: parent_files_graph_def graph_p_def files_p_def with_content_def
          get_object_content_def dir_pc_def db_p_def rows_of_def)
  have cg: "map_of (with_content dir_pc (map (\<lambda>(p, fi). (p, hash fi)) files_c)) = map_of (rev files_c)"
    by (rule ext)
       (simp add: files_c_def with_content_def get_object_content_def dir_pc_def)
  have l2: "changes_loop_graph example_lib files_p files_c [''h.txt'', ''g.txt'', ''f.txt''] =
      Inr (rev changes_pc)"
    by (simp add: files_p_def files_c_def changes_pc_def change_for_graph_def example_lib_def)
  have ne: "changes_pc \<noteq> rev changes_pc"
    by (simp add: changes_pc_def)
  have s: "set [''f.txt'', ''g.txt'', ''h.txt''] = set [''h.txt'', ''g.txt'', ''f.txt'']"
    by auto
  have ne2: "changes_loop_graph example_lib files_p files_c [''f.txt'', ''g.txt'', ''h.txt'']
     \<noteq> changes_loop_graph example_lib files_p files_c [''h.txt'', ''g.txt'', ''f.txt'']"
    unfolding changes_pc_graph l2 using ne by simp
  have k1: "map fst (projr (calculate_changes_graph example_lib dir_pc graph_p (Some ''P'')
                     (map (\<lambda>(p, fi). (p, hash fi)) files_c)))
     = [''g.txt'', ''f.txt'', ''h.txt'']"
    unfolding changes_graph_pc by simp
  have k2: "map fst (projr (calculate_changes_sqlite example_lib db_p (Some ''P'') (rev files_c)))
     = [''g.txt'', ''h.txt'', ''f.txt'']"
    unfolding changes_sqlite_pc by simp
  have d: "calculate_changes_graph example_lib dir_pc graph_p (Some ''P'')
       (map (\<lambda>(p, fi). (p, hash fi)) files_c)
     \<noteq> calculate_changes_sqlite example_lib db_p (Some ''P'') (rev files_c)"
    unfolding changes_graph_pc changes_sqlite_pc by simp
  from pg cg k1 k2 d s ne2 show ?thesis
    by (intro conjI)
qed

subsection \<open>The change set of a push\<close>

lemma changes_loop_graph_spec:
  assumes l: "changes_loop_graph L pf cf (all_paths pf cf) = Inr chs"
  shows "change_set_spec (map_option hash \<circ> map_of pf) (map_option hash \<circ> map_of cf) chs"
proof -
  have nofail: "\<And>p. p \<in> set (all_paths pf cf) \<Longrightarrow> \<exists>co. change_for_graph L pf cf p = Inr co"
  proof -
    fix p
    assume "p \<in> set (all_paths pf cf)"
    then show "\<exists>co. change_for_graph L pf cf p = Inr co"
      using l changes_loop_graph_fails [of L pf cf "all_paths pf cf"]
      by (cases "change_for_graph L pf cf p") auto
  qed
  have look: "\<And>p. map_of chs p =
     (if p \<in> set (all_paths pf cf)
      then (case change_for_graph L pf cf p of Inr (Some c) \<Rightarrow> Some c | _ \<Rightarrow> None)
      else None)"
    by (rule changes_loop_graph_lookup [OF l])
  have mem: "\<And>p. p \<in> set (all_paths pf cf) \<longleftrightarrow> map_of pf p \<noteq> None \<or> map_of cf p \<noteq> None"
    by (auto simp: set_all_paths map_of_eq_None_iff)
  have d: "distinct (map fst chs)"
    using changes_loop_graph_keys [OF l] by (simp add: all_paths_def)
  have sp: "\<And>p. change_spec ((map_option hash \<circ> map_of pf) p) ((map_option hash \<circ> map_of cf) p)
                    (map_of chs p)"
  proof -
    fix p
    show "change_spec ((map_option hash \<circ> map_of pf) p) ((map_option hash \<circ> map_of cf) p)
                    (map_of chs p)"
    proof (cases "p \<in> set (all_paths pf cf)")
      case False
      then show ?thesis
        using mem [of p] by (simp add: look change_spec_def)
    next
      case True
      from nofail [OF True] obtain co where "change_for_graph L pf cf p = Inr co"
        by blast
      then show ?thesis
        using True mem [of p]
        by (auto simp: look change_spec_def change_for_graph_def
            split: option.splits if_splits)
    qed
  qed
  have k: "fst ` set chs = changed_paths (map_option hash \<circ> map_of pf) (map_option hash \<circ> map_of cf)"
  proof (rule set_eqI)
    fix p
    have "p \<in> fst ` set chs \<longleftrightarrow> map_of chs p \<noteq> None"
      by (simp add: map_of_eq_None_iff)
    also have "\<dots> \<longleftrightarrow> p \<in> changed_paths (map_option hash \<circ> map_of pf) (map_option hash \<circ> map_of cf)"
      using sp [of p]
      by (auto simp: change_spec_def changed_paths_def dom_def
          split: option.splits if_splits)
    finally show "p \<in> fst ` set chs \<longleftrightarrow>
        p \<in> changed_paths (map_option hash \<circ> map_of pf) (map_option hash \<circ> map_of cf)" .
  qed
  show ?thesis
    using d k sp by (simp add: change_set_spec_def)
qed

lemma hash_with_content:
  "map_option hash \<circ> map_of (with_content r fh) = map_of fh"
  by (rule ext) (simp add: map_of_with_content option.map_comp comp_def option.map_ident)

lemma calculate_changes_graph_spec:
  assumes "calculate_changes_graph L r g (Some pid) fh = Inr chs" and "pid \<noteq> []"
    and "map_of (commits g) pid = Some pc"
  shows "change_set_spec (map_of (files pc)) (map_of fh) chs"
proof -
  from assms have "changes_loop_graph L (with_content r (files pc)) (with_content r fh)
      (all_paths (with_content r (files pc)) (with_content r fh)) = Inr chs"
    by (simp add: calculate_changes_graph_def truthy_def parent_files_graph_def Let_def)
  from changes_loop_graph_spec [OF this] show ?thesis
    by (simp add: hash_with_content)
qed

lemma calculate_changes_graph_root:
  assumes "calculate_changes_graph L r g par fh = Inr chs" and "\<not> truthy par"
  shows "all_added_spec (map_of fh) chs"
proof -
  from assms have chs: "chs = map (\<lambda>(file_path, file_hash).
            (file_path, \<lparr>status = added, diff = None, previous_hash = None,
                         current_hash = Some file_hash\<rparr>)) fh"
    by (simp add: calculate_changes_graph_def)
  have "fst ` set chs = fst ` set fh"
    unfolding chs by (force simp: image_iff)
  then show ?thesis
    by (simp add: all_added_spec_def keys_of_map_of)
       (simp add: chs map_of_added_graph)
qed

lemma push_graph_changes:
  assumes "push_commit_graph L fs d = (Inr (Pushed n), fs')"
  shows "\<exists>r1 g' cd chs.
           read_graph fs' (get_repo_path (repo_name d)) = Some g' \<and>
           map_of (commits g') (commit_id d) = Some cd \<and>
           map_of (changes g') (commit_id d) = Some chs \<and> n = length chs \<and>
           calculate_changes_graph L r1 (graph_or_empty fs (get_repo_path (repo_name d)))
             (parent_id d) (files cd) = Inr chs"
  using assms
  by (auto simp: push_commit_graph_def Let_def graph_or_empty_def read_graph_def
      new_repo_dir_def advance_head_def update_conv'
      split: option.splits if_splits prod.splits sum.splits; blast)


lemma insert_all_append: "insert_all rows t = Inr t' \<Longrightarrow> t' = t @ rows"
proof (induction rows arbitrary: t)
  case Nil
  then show ?case by simp
next
  case (Cons a rows)
  obtain k v where a: "a = (k, v)" by (cases a)
  from Cons.prems have "insert_all rows (t @ [(k, v)]) = Inr t'"
    by (auto simp: a sql_insert_def split: if_splits)
  from Cons.IH [OF this] show ?case by (simp add: a)
qed

lemma rows_of_append: "rows_of (t @ u) c = rows_of t c @ rows_of u c"
  by (simp add: rows_of_def)

lemma rows_of_own: "rows_of (map (\<lambda>(p, v). ((c, p), v)) xs) c = xs"
  by (induction xs) (auto simp: rows_of_def)

lemma rows_of_other: "c' \<noteq> c \<Longrightarrow> rows_of (map (\<lambda>(p, v). ((c, p), v)) xs) c' = []"
  by (induction xs) (auto simp: rows_of_def)

lemma rows_of_absent: "c \<notin> fst ` fst ` set t \<Longrightarrow> rows_of t c = []"
  by (induction t) (auto simp: rows_of_def)

lemma foreign_keys_no_rows:
  assumes "foreign_keys db" and "c \<notin> fst ` set (commits_table db)"
  shows "rows_of (files_table db) c = []" and "rows_of (changes_table db) c = []"
  using assms by (force simp: foreign_keys_def intro!: rows_of_absent)+

lemma calculate_changes_sqlite_spec:
  assumes "calculate_changes_sqlite L db (Some pid) cf = Inr chs" and "pid \<noteq> []"
  shows "change_set_spec (map_option hash \<circ> map_of (rows_of (files_table db) pid))
           (map_option hash \<circ> map_of cf) chs"
proof -
  from assms have "changes_loop_graph L (rows_of (files_table db) pid) cf
      (all_paths (rows_of (files_table db) pid) cf) = Inr chs"
    by (simp add: calculate_changes_sqlite_def truthy_def Let_def changes_loop_same)
  then show ?thesis by (rule changes_loop_graph_spec)
qed

lemma calculate_changes_sqlite_root:
  assumes "calculate_changes_sqlite L db par cf = Inr chs" and "\<not> truthy par"
  shows "all_added_spec (map_option hash \<circ> map_of cf) chs"
proof -
  from assms have chs: "chs = map (\<lambda>(file_path, file_info).
            (file_path, \<lparr>status = added, diff = None, previous_hash = None,
                         current_hash = Some (hash file_info)\<rparr>)) cf"
    by (simp add: calculate_changes_sqlite_def)
  have "fst ` set chs = fst ` set cf"
    unfolding chs by (force simp: image_iff)
  then show ?thesis
    by (simp add: all_added_spec_def keys_of_map_of)
       (simp add: chs map_of_added_sqlite option.map_comp comp_def)
qed

lemma push_sqlite_changes:
  assumes push: "push_commit_sqlite L sfs d = (Inr (Pushed n), sfs')"
    and fk: "foreign_keys (db_or_empty sfs (get_repo_path (repo_name d)))"
  shows "\<exists>db' dbx chs. sfs' (get_repo_path (repo_name d)) = Some db' \<and>
           rows_of (files_table db') (commit_id d) = req_files d \<and>
           rows_of (changes_table db') (commit_id d) = chs \<and>
           calculate_changes_sqlite L dbx (parent_id d) (req_files d) = Inr chs \<and>
           (\<forall>pid. parent_id d = Some pid \<longrightarrow> pid \<noteq> [] \<longrightarrow>
              rows_of (files_table dbx) pid =
              rows_of (files_table (db_or_empty sfs (get_repo_path (repo_name d)))) pid)"
proof -
  define k where "k = get_repo_path (repo_name d)"
  define db where "db = db_or_empty sfs k"
  define fs1 where "fs1 = (case sfs k of None \<Rightarrow> sfs(k \<mapsto> empty_db) | Some db \<Rightarrow> sfs)"
  have db: "fs1 k = Some db"
    by (auto simp: fs1_def db_def db_or_empty_def split: option.splits)
  from push have v: "validate_repo_name (repo_name d)"
    by (auto simp: push_commit_sqlite_def split: if_splits)
  from push v db have new: "commit_id d \<notin> fst ` set (commits_table db)"
    by (auto simp: push_commit_sqlite_def Let_def k_def [symmetric] fs1_def [symmetric]
        split: if_splits)
  from push v db new have par: "\<not> (truthy (parent_id d) \<and>
      the (parent_id d) \<notin> fst ` set (commits_table db))"
    by (auto simp: push_commit_sqlite_def Let_def k_def [symmetric] fs1_def [symmetric]
        split: if_splits)
  from push v db new par obtain ct ft chs cht where
    ct: "sql_insert (commit_id d) \<lparr>message = message d, author = author d,
           timestamp = timestamp d, parent_id = parent_id d\<rparr> (commits_table db) = Inr ct"
    and ft: "insert_all (map (\<lambda>(file_path, file_info). ((commit_id d, file_path), file_info))
               (req_files d)) (files_table db) = Inr ft"
    and cc: "calculate_changes_sqlite L (db\<lparr>commits_table := ct, files_table := ft\<rparr>)
               (parent_id d) (req_files d) = Inr chs"
    and cht: "insert_all (map (\<lambda>(file_path, change_info). ((commit_id d, file_path), change_info))
               chs) (changes_table db) = Inr cht"
    and res: "sfs' = fs1(k \<mapsto> \<lparr>commits_table = ct, files_table = ft, changes_table = cht\<rparr>)"
    by (auto simp: push_commit_sqlite_def Let_def k_def [symmetric] fs1_def [symmetric]
        split: if_splits sum.splits)
  have fk': "foreign_keys db"
    using fk by (simp add: db_def k_def)
  have ft': "ft = files_table db @
      map (\<lambda>(file_path, file_info). ((commit_id d, file_path), file_info)) (req_files d)"
    using ft by (rule insert_all_append)
  have cht': "cht = changes_table db @
      map (\<lambda>(file_path, change_info). ((commit_id d, file_path), change_info)) chs"
    using cht by (rule insert_all_append)
  have f1: "rows_of ft (commit_id d) = req_files d"
    by (simp add: ft' rows_of_append rows_of_own foreign_keys_no_rows [OF fk' new])
  have c1: "rows_of cht (commit_id d) = chs"
    by (simp add: cht' rows_of_append rows_of_own foreign_keys_no_rows [OF fk' new])
  have p1: "\<And>pid. parent_id d = Some pid \<Longrightarrow> pid \<noteq> [] \<Longrightarrow>
      rows_of ft pid = rows_of (files_table db) pid"
  proof -
    fix pid
    assume "parent_id d = Some pid" and "pid \<noteq> []"
    with par have "pid \<in> fst ` set (commits_table db)"
      by (simp add: truthy_def)
    with new have "pid \<noteq> commit_id d" by blast
    then show "rows_of ft pid = rows_of (files_table db) pid"
      by (simp add: ft' rows_of_append rows_of_other)
  qed
  show ?thesis
    using res f1 c1 cc p1
    by (intro exI [of _ "\<lparr>commits_table = ct, files_table = ft, changes_table = cht\<rparr>"]
        exI [of _ "db\<lparr>commits_table := ct, files_table := ft\<rparr>"] exI [of _ chs])
       (simp add: k_def [symmetric] db_def [symmetric])
qed

text \<open>
  C2, as amended. For a commit pushed with success whose \<open>parent_id\<close> is neither null
  nor empty and names a commit of the repository, the change record stored with the
  commit has exactly the paths of the parent's files and of its own files except those
  whose hash is the same in both; a path of the commit only is added without diff, a
  path of the parent only is deleted without diff, a path of both with differing hashes
  is modified with a diff, and a path of both with equal hashes has no record. For a
  commit whose \<open>parent_id\<close> is null or empty, every file is added without diff. This
  holds in the graph backend, and in the SQLite backend for a database whose rows
  belong to commits.
\<close>

theorem push_change_set:
  "(push_commit_graph L fs d = (Inr (Pushed n), fs') \<longrightarrow>
     (\<exists>g' cd chs.
        read_graph fs' (get_repo_path (repo_name d)) = Some g' \<and>
        map_of (commits g') (commit_id d) = Some cd \<and>
        map_of (changes g') (commit_id d) = Some chs \<and>
        (\<forall>pid pc. parent_id d = Some pid \<longrightarrow> pid \<noteq> [] \<longrightarrow>
           map_of (commits (graph_or_empty fs (get_repo_path (repo_name d)))) pid = Some pc \<longrightarrow>
           change_set_spec (map_of (files pc)) (map_of (files cd)) chs) \<and>
        (\<not> truthy (parent_id d) \<longrightarrow> all_added_spec (map_of (files cd)) chs))) \<and>
   (push_commit_sqlite L sfs d = (Inr (Pushed m), sfs') \<longrightarrow>
    foreign_keys (db_or_empty sfs (get_repo_path (repo_name d))) \<longrightarrow>
     (\<exists>db'. sfs' (get_repo_path (repo_name d)) = Some db' \<and>
        (\<forall>pid. parent_id d = Some pid \<longrightarrow> pid \<noteq> [] \<longrightarrow>
           change_set_spec
             (map_option hash \<circ> map_of (rows_of (files_table
                 (db_or_empty sfs (get_repo_path (repo_name d)))) pid))
             (map_option hash \<circ> map_of (rows_of (files_table db') (commit_id d)))
             (rows_of (changes_table db') (commit_id d))) \<and>
        (\<not> truthy (parent_id d) \<longrightarrow>
           all_added_spec (map_option hash \<circ> map_of (rows_of (files_table db') (commit_id d)))
             (rows_of (changes_table db') (commit_id d)))))"
proof (intro conjI impI)
  assume "push_commit_graph L fs d = (Inr (Pushed n), fs')"
  from push_graph_changes [OF this] obtain r1 g' cd chs where
    g: "read_graph fs' (get_repo_path (repo_name d)) = Some g'"
      "map_of (commits g') (commit_id d) = Some cd"
      "map_of (changes g') (commit_id d) = Some chs"
    and cc: "calculate_changes_graph L r1 (graph_or_empty fs (get_repo_path (repo_name d)))
             (parent_id d) (files cd) = Inr chs"
    by blast
  have a: "\<forall>pid pc. parent_id d = Some pid \<longrightarrow> pid \<noteq> [] \<longrightarrow>
           map_of (commits (graph_or_empty fs (get_repo_path (repo_name d)))) pid = Some pc \<longrightarrow>
           change_set_spec (map_of (files pc)) (map_of (files cd)) chs"
    using cc by (auto intro: calculate_changes_graph_spec)
  have b: "\<not> truthy (parent_id d) \<longrightarrow> all_added_spec (map_of (files cd)) chs"
    using cc by (auto intro: calculate_changes_graph_root)
  from g a b show "\<exists>g' cd chs.
        read_graph fs' (get_repo_path (repo_name d)) = Some g' \<and>
        map_of (commits g') (commit_id d) = Some cd \<and>
        map_of (changes g') (commit_id d) = Some chs \<and>
        (\<forall>pid pc. parent_id d = Some pid \<longrightarrow> pid \<noteq> [] \<longrightarrow>
           map_of (commits (graph_or_empty fs (get_repo_path (repo_name d)))) pid = Some pc \<longrightarrow>
           change_set_spec (map_of (files pc)) (map_of (files cd)) chs) \<and>
        (\<not> truthy (parent_id d) \<longrightarrow> all_added_spec (map_of (files cd)) chs)"
    by blast
next
  assume "push_commit_sqlite L sfs d = (Inr (Pushed m), sfs')"
    and "foreign_keys (db_or_empty sfs (get_repo_path (repo_name d)))"
  from push_sqlite_changes [OF this] obtain db' dbx chs where
    s: "sfs' (get_repo_path (repo_name d)) = Some db'"
    and f: "rows_of (files_table db') (commit_id d) = req_files d"
    and c: "rows_of (changes_table db') (commit_id d) = chs"
    and cc: "calculate_changes_sqlite L dbx (parent_id d) (req_files d) = Inr chs"
    and p: "\<forall>pid. parent_id d = Some pid \<longrightarrow> pid \<noteq> [] \<longrightarrow>
              rows_of (files_table dbx) pid =
              rows_of (files_table (db_or_empty sfs (get_repo_path (repo_name d)))) pid"
    by blast
  have a: "\<forall>pid. parent_id d = Some pid \<longrightarrow> pid \<noteq> [] \<longrightarrow>
           change_set_spec
             (map_option hash \<circ> map_of (rows_of (files_table
                 (db_or_empty sfs (get_repo_path (repo_name d)))) pid))
             (map_option hash \<circ> map_of (rows_of (files_table db') (commit_id d)))
             (rows_of (changes_table db') (commit_id d))"
    using cc p f c calculate_changes_sqlite_spec [of L dbx _ "req_files d" chs]
    by (metis (no_types, lifting))
  have b: "\<not> truthy (parent_id d) \<longrightarrow>
           all_added_spec (map_option hash \<circ> map_of (rows_of (files_table db') (commit_id d)))
             (rows_of (changes_table db') (commit_id d))"
    using cc f c by (auto intro: calculate_changes_sqlite_root)
  from s a b show "\<exists>db'. sfs' (get_repo_path (repo_name d)) = Some db' \<and>
        (\<forall>pid. parent_id d = Some pid \<longrightarrow> pid \<noteq> [] \<longrightarrow>
           change_set_spec
             (map_option hash \<circ> map_of (rows_of (files_table
                 (db_or_empty sfs (get_repo_path (repo_name d)))) pid))
             (map_option hash \<circ> map_of (rows_of (files_table db') (commit_id d)))
             (rows_of (changes_table db') (commit_id d))) \<and>
        (\<not> truthy (parent_id d) \<longrightarrow>
           all_added_spec (map_option hash \<circ> map_of (rows_of (files_table db') (commit_id d)))
             (rows_of (changes_table db') (commit_id d)))"
    by blast
qed


lemma push_n_graph_eval:
  "push_commit_graph example_lib Map.empty commit_n = (Inr (Pushed 1), graph_n)"
  by (simp add: push_commit_graph_def commit_n_def valid_demo path_demo new_repo_dir_def
      empty_graph_def store_object_def calculate_hash_def example_lib_def
      calculate_changes_graph_def truthy_def advance_head_def Let_def
      graph_n_def graph_n_data_def)

lemma push_e_graph_eval:
  "push_commit_graph example_lib graph_n commit_e = (Inr (Pushed 1), graph_ne)"
  by (simp add: push_commit_graph_def commit_e_def valid_demo path_demo
      store_object_def calculate_hash_def example_lib_def
      calculate_changes_graph_def truthy_def advance_head_def Let_def
      graph_n_def graph_n_data_def graph_ne_def graph_ne_data_def)

theorem push_change_set_witness:
  "push_commit_graph example_lib graph_a commit_b = (Inr (Pushed 1), graph_ab) \<and>
   parent_id commit_b = Some ''A'' \<and> ''A'' \<noteq> [] \<and>
   map_option files (map_of (commits (graph_or_empty graph_a ''demo'')) ''A'')
     = Some [(''f.txt'', ''sha1:v1'')] \<and>
   map_option files (map_of (commits graph_ab_data) ''B'') = Some [(''f.txt'', ''sha1:v2'')] \<and>
   change_set_spec (map_of [(''f.txt'', ''sha1:v1'')]) (map_of [(''f.txt'', ''sha1:v2'')])
     [(''f.txt'', \<lparr>status = modified,
                   diff = Some (join_lines [''--- a/f.txt'', ''+++ b/f.txt'', ''-v1'', ''+v2'']),
                   previous_hash = Some ''sha1:v1'', current_hash = Some ''sha1:v2''\<rparr>)] \<and>
   push_commit_sqlite example_lib sqlite_a commit_b = (Inr (Pushed 1), sqlite_ab) \<and>
   foreign_keys (db_or_empty sqlite_a ''demo'') \<and>
   change_set_spec (map_option hash \<circ> map_of (rows_of (files_table sqlite_a_db) ''A''))
     (map_option hash \<circ> map_of (rows_of (files_table sqlite_ab_db) ''B''))
     (rows_of (changes_table sqlite_ab_db) ''B'') \<and>
   push_commit_graph example_lib Map.empty commit_a = (Inr (Pushed 1), graph_a) \<and>
   \<not> truthy (parent_id commit_a) \<and>
   all_added_spec (map_of [(''f.txt'', ''sha1:v1'')])
     [(''f.txt'', \<lparr>status = added, diff = None, previous_hash = None,
                   current_hash = Some ''sha1:v1''\<rparr>)]"
proof -
  have k: "get_repo_path (repo_name commit_b) = ''demo''" "commit_id commit_b = ''B''"
    "parent_id commit_b = Some ''A''"
    "get_repo_path (repo_name commit_a) = ''demo''" "commit_id commit_a = ''A''"
    "parent_id commit_a = None"
    by (simp_all add: commit_b_def commit_a_def path_demo)
  have g: "graph_or_empty graph_a ''demo'' = graph_a_data"
    "read_graph graph_ab ''demo'' = Some graph_ab_data"
    "read_graph graph_a ''demo'' = Some graph_a_data"
    by (simp_all add: graph_or_empty_def read_graph_def graph_a_def graph_ab_def)
  have fk: "foreign_keys (db_or_empty sqlite_a ''demo'')"
    by (simp add: foreign_keys_def db_or_empty_def sqlite_a_def sqlite_a_db_def)
  have d: "db_or_empty sqlite_a ''demo'' = sqlite_a_db" "sqlite_ab ''demo'' = Some sqlite_ab_db"
    by (simp_all add: db_or_empty_def sqlite_a_def sqlite_ab_def)
  have t: "\<not> truthy (parent_id commit_a)"
    by (simp add: k truthy_def)
  from push_change_set [of example_lib graph_a commit_b 1 graph_ab sqlite_a 1 sqlite_ab]
    push_b_graph_eval push_b_sqlite_eval fk
  have b1: "change_set_spec (map_of [(''f.txt'', ''sha1:v1'')]) (map_of [(''f.txt'', ''sha1:v2'')])
     [(''f.txt'', \<lparr>status = modified,
                   diff = Some (join_lines [''--- a/f.txt'', ''+++ b/f.txt'', ''-v1'', ''+v2'']),
                   previous_hash = Some ''sha1:v1'', current_hash = Some ''sha1:v2''\<rparr>)]"
    and b2: "change_set_spec (map_option hash \<circ> map_of (rows_of (files_table sqlite_a_db) ''A''))
     (map_option hash \<circ> map_of (rows_of (files_table sqlite_ab_db) ''B''))
     (rows_of (changes_table sqlite_ab_db) ''B'')"
    by (simp_all add: k g d graph_ab_data_def graph_a_data_def)
  from push_change_set [of example_lib Map.empty commit_a 1 graph_a Map.empty 1 sqlite_a]
    push_a_graph_eval t
  have a1: "all_added_spec (map_of [(''f.txt'', ''sha1:v1'')])
     [(''f.txt'', \<lparr>status = added, diff = None, previous_hash = None,
                   current_hash = Some ''sha1:v1''\<rparr>)]"
    by (simp add: k g graph_a_data_def)
  show ?thesis
    using push_b_graph_eval push_b_sqlite_eval push_a_graph_eval fk t b1 b2 a1
    by (simp add: k g graph_a_data_def graph_ab_data_def)
qed

text \<open>
  C2 as it is stated fails for a parent id that is not null but empty. The commit of
  id \<^verbatim>\<open>''\<close> is in the repository, with the file \<^verbatim>\<open>g.txt\<close>; commit \<open>E\<close> names it as
  its parent and has the file \<^verbatim>\<open>f.txt\<close> only. The change record stored for \<open>E\<close>
  holds \<^verbatim>\<open>f.txt\<close> as added and nothing for \<^verbatim>\<open>g.txt\<close>, which the claim has deleted.
\<close>

theorem push_change_set_counterexample:
  "push_commit_graph example_lib Map.empty commit_n = (Inr (Pushed 1), graph_n) \<and>
   parent_id commit_e = Some [] \<and>
   map_option files (map_of (commits graph_n_data) []) = Some [(''g.txt'', ''sha1:w'')] \<and>
   push_commit_graph example_lib graph_n commit_e = (Inr (Pushed 1), graph_ne) \<and>
   read_graph graph_ne ''demo'' = Some graph_ne_data \<and>
   map_option files (map_of (commits graph_ne_data) ''E'') = Some [(''f.txt'', ''sha1:v1'')] \<and>
   map_of (changes graph_ne_data) ''E'' =
     Some [(''f.txt'', \<lparr>status = added, diff = None, previous_hash = None,
                         current_hash = Some ''sha1:v1''\<rparr>)] \<and>
   \<not> change_set_spec (map_of [(''g.txt'', ''sha1:w'')]) (map_of [(''f.txt'', ''sha1:v1'')])
       [(''f.txt'', \<lparr>status = added, diff = None, previous_hash = None,
                     current_hash = Some ''sha1:v1''\<rparr>)]"
proof -
  have "\<not> change_spec (map_of [(''g.txt'', ''sha1:w'')] ''g.txt'')
            (map_of [(''f.txt'', ''sha1:v1'')] ''g.txt'')
            (map_of [(''f.txt'', \<lparr>status = added, diff = None, previous_hash = None,
                                  current_hash = Some ''sha1:v1''\<rparr>)] ''g.txt'')"
    by (simp add: change_spec_def)
  then have "\<not> change_set_spec (map_of [(''g.txt'', ''sha1:w'')]) (map_of [(''f.txt'', ''sha1:v1'')])
       [(''f.txt'', \<lparr>status = added, diff = None, previous_hash = None,
                     current_hash = Some ''sha1:v1''\<rparr>)]"
    unfolding change_set_spec_def by blast
  then show ?thesis
    using push_n_graph_eval push_e_graph_eval
    by (simp add: commit_e_def graph_n_data_def graph_ne_data_def read_graph_def graph_ne_def)
qed

subsection \<open>Clone\<close>

text \<open>
  In the graph backend a clone that succeeds leaves the source as it was and gives the
  target the graph and every object file of the source, so \<open>get_commits\<close> and
  \<open>get_object_content\<close> answer for the target as they do for the source.
\<close>

lemma graph_data_eta:
  "\<lparr>commits = commits g, changes = changes g, branches = branches g, HEAD = HEAD g\<rparr> = g"
  by (cases g) simp

lemma clone_graph_fidelity:
  assumes "clone_repo_graph fs source_repo target_repo = (Inr res, fs')"
  shows "get_commits_graph fs' target_repo = get_commits_graph fs source_repo"
    and "get_commits_graph fs' source_repo = get_commits_graph fs source_repo"
    and "read_graph fs' (get_repo_path target_repo) = read_graph fs (get_repo_path source_repo)"
    and "\<exists>sr tr. fs (get_repo_path source_repo) = Some sr \<and>
           fs' (get_repo_path target_repo) = Some tr \<and>
           objects tr = objects sr \<and>
           (\<forall>h. get_object_content tr h = get_object_content sr h)"
  using assms
  by (auto simp: clone_repo_graph_def get_objects_dir_def Let_def get_commits_graph_def
      read_graph_def get_object_content_def new_repo_dir_def empty_graph_def graph_data_eta
      split: option.splits if_splits)

text \<open>
  C5 fails in the SQLite backend, whose clone is a pull into the new repository. The
  source holds \<open>A\<close> and its child \<open>B\<close>, pushed in this order, \<open>B\<close> with the earlier
  timestamp. The pull visits \<open>B\<close> first, skips it since its parent is not in the
  target yet, and copies \<open>A\<close> only; the clone answers with success, and
  \<open>get_commits\<close> of the target lacks \<open>B\<close>.
\<close>

theorem clone_sqlite_drops_commit:
  "push_commit_sqlite example_lib Map.empty commit_a = (Inr (Pushed 1), sqlite_a) \<and>
   push_commit_sqlite example_lib sqlite_a commit_b = (Inr (Pushed 1), sqlite_ab) \<and>
   sqlite_ab (get_repo_path ''copy'') = None \<and>
   fst (clone_repo_sqlite sqlite_ab ''demo'' ''copy'') = Inr (1, 0) \<and>
   map_sum id (map summary_id)
     (get_commits_sqlite (snd (clone_repo_sqlite sqlite_ab ''demo'' ''copy'')) ''demo'')
     = Inr [''A'', ''B''] \<and>
   map_sum id (map summary_id)
     (get_commits_sqlite (snd (clone_repo_sqlite sqlite_ab ''demo'' ''copy'')) ''copy'')
     = Inr [''A''] \<and>
   get_commits_sqlite (snd (clone_repo_sqlite sqlite_ab ''demo'' ''copy'')) ''copy''
     \<noteq> get_commits_sqlite (snd (clone_repo_sqlite sqlite_ab ''demo'' ''copy'')) ''demo''"
proof -
  have c: "clone_repo_sqlite sqlite_ab ''demo'' ''copy'' =
           (Inr (1, 0), sqlite_ab(''copy'' \<mapsto> sqlite_a_db))"
    by (simp add: clone_repo_sqlite_def pull_commits_sqlite_def valid_demo valid_copy
        path_demo path_copy sqlite_ab_def sqlite_ab_db_def sqlite_a_db_def
        create_repo_sqlite_def empty_db_def source_commits_sqlite_def parent_missing_def
        truthy_def sql_insert_def rows_of_def Let_def)
  have s: "map_sum id (map summary_id)
     (get_commits_sqlite (sqlite_ab(''copy'' \<mapsto> sqlite_a_db)) ''demo'') = Inr [''A'', ''B'']"
    by (simp add: get_commits_sqlite_def path_demo sqlite_ab_def sqlite_ab_db_def
        sort_desc_def summary_sqlite_def)
  have t: "map_sum id (map summary_id)
     (get_commits_sqlite (sqlite_ab(''copy'' \<mapsto> sqlite_a_db)) ''copy'') = Inr [''A'']"
    by (simp add: get_commits_sqlite_def path_copy sqlite_a_db_def
        sort_desc_def summary_sqlite_def)
  have n: "get_commits_sqlite (sqlite_ab(''copy'' \<mapsto> sqlite_a_db)) ''copy''
     \<noteq> get_commits_sqlite (sqlite_ab(''copy'' \<mapsto> sqlite_a_db)) ''demo''"
    using s t by (metis list.inject list.simps(3) sum.inject(2))
  show ?thesis
    using push_a_sqlite_eval push_b_sqlite_eval c s t n
    by (simp add: path_copy sqlite_ab_def)
qed

theorem clone_sqlite_drops_commit_witness:
  "fst (clone_repo_sqlite sqlite_ab ''demo'' ''copy'') = Inr (1, 0) \<and>
   get_commits_sqlite (snd (clone_repo_sqlite sqlite_ab ''demo'' ''copy'')) ''copy''
     \<noteq> get_commits_sqlite (snd (clone_repo_sqlite sqlite_ab ''demo'' ''copy'')) ''demo''"
  using clone_sqlite_drops_commit by simp

text \<open>
  What the clone of either backend answers when the source is missing or the target
  exists. The graph backend creates the directory of a missing source on the way.
\<close>

lemma clone_sqlite_errors:
  assumes "validate_repo_name source_repo" and "validate_repo_name target_repo"
  shows "fs (get_repo_path source_repo) = None \<Longrightarrow>
           clone_repo_sqlite fs source_repo target_repo = (Inl RepoNotFound, fs)"
    and "fs (get_repo_path source_repo) \<noteq> None \<Longrightarrow> fs (get_repo_path target_repo) \<noteq> None \<Longrightarrow>
           clone_repo_sqlite fs source_repo target_repo = (Inl TargetExists, fs)"
  using assms by (simp_all add: clone_repo_sqlite_def)

lemma clone_graph_errors:
  assumes "validate_repo_name source_repo" and "validate_repo_name target_repo"
  shows "read_graph fs (get_repo_path source_repo) = None \<Longrightarrow>
           fst (clone_repo_graph fs source_repo target_repo) = Inl RepoNotFound \<and>
           (get_repo_path target_repo \<noteq> get_repo_path source_repo \<longrightarrow>
              snd (clone_repo_graph fs source_repo target_repo) (get_repo_path target_repo)
                = fs (get_repo_path target_repo))"
    and "read_graph fs (get_repo_path source_repo) \<noteq> None \<Longrightarrow>
         fs (get_repo_path target_repo) \<noteq> None \<Longrightarrow>
           clone_repo_graph fs source_repo target_repo = (Inl TargetExists, fs)"
  using assms
  by (auto simp: clone_repo_graph_def get_objects_dir_def read_graph_def Let_def
      split: option.splits)

text \<open>
  Whenever the pull inside the SQLite clone answers with status 500, the clone returns
  that answer and the target it has created stays, with empty tables.
\<close>

lemma clone_sqlite_failure_keeps_target:
  assumes "clone_repo_sqlite fs source_repo target_repo = (Inl (ServerError e), fs')"
  shows "fs (get_repo_path target_repo) = None \<and> fs' (get_repo_path target_repo) = Some empty_db"
  using assms
  by (auto simp: clone_repo_sqlite_def pull_commits_sqlite_def create_repo_sqlite_def Let_def
      split: if_splits option.splits prod.splits)

text \<open>
  C8 fails in the graph backend when the missing source and the target are the same
  name: \<open>clone_repo\<close> answers that the source is not found, and has created the
  directory, which is the target's, without \<^verbatim>\<open>graph.json\<close>. After that a clone of
  an existing repository into this name is refused since the target exists, and a push
  to it fails with status 500.
\<close>

theorem clone_graph_creates_target:
  "graph_a (get_repo_path ''copy'') = None \<and>
   clone_repo_graph graph_a ''copy'' ''copy'' =
     (Inl RepoNotFound, graph_a(''copy'' \<mapsto> \<lparr>graph_json = None, objects = Map.empty\<rparr>)) \<and>
   fst (clone_repo_graph (snd (clone_repo_graph graph_a ''copy'' ''copy'')) ''demo'' ''copy'')
     = Inl TargetExists \<and>
   fst (clone_repo_graph graph_a ''demo'' ''copy'') = Inr (1, 1) \<and>
   fst (push_commit_graph example_lib (snd (clone_repo_graph graph_a ''copy'' ''copy''))
          (commit_a\<lparr>repo_name := ''copy''\<rparr>)) = Inl (ServerError FileNotFoundError)"
  by (simp add: clone_repo_graph_def get_objects_dir_def valid_copy valid_demo path_copy
      path_demo graph_a_def graph_a_data_def Let_def push_commit_graph_def commit_a_def
      empty_graph_def new_repo_dir_def)

theorem clone_graph_creates_target_witness:
  "fst (clone_repo_graph graph_a ''copy'' ''copy'') = Inl RepoNotFound \<and>
   graph_a ''copy'' = None \<and>
   snd (clone_repo_graph graph_a ''copy'' ''copy'') ''copy'' =
     Some \<lparr>graph_json = None, objects = Map.empty\<rparr>"
  using clone_graph_creates_target by (simp add: path_copy)

subsection \<open>The order of a pull\<close>

lemma parents_first_append:
  "parents_first seen (xs @ ys) \<longleftrightarrow>
   parents_first seen xs \<and> parents_first (rev (map fst xs) @ seen) ys"
proof (induction xs arbitrary: seen)
  case Nil
  then show ?case by simp
next
  case (Cons a xs)
  obtain c p where a: "a = (c, p)" by (cases a)
  show ?case
    using Cons.IH [of "c # seen"] by (simp add: a)
qed

lemma parents_first_cong:
  "set seen = set seen' \<Longrightarrow> parents_first seen xs = parents_first seen' xs"
proof (induction xs arbitrary: seen seen')
  case Nil
  then show ?case by simp
next
  case (Cons a xs)
  obtain c p where a: "a = (c, p)" by (cases a)
  from Cons.prems have "set (c # seen) = set (c # seen')" by simp
  from Cons.IH [OF this] Cons.prems show ?case by (simp add: a)
qed

lemma parents_first_drop:
  "parents_first seen' xs \<Longrightarrow> set seen' = insert c (set seen) \<Longrightarrow>
   \<forall>(x, p) \<in> set xs. truthy p \<longrightarrow> the p \<noteq> c \<Longrightarrow> parents_first seen xs"
proof (induction xs arbitrary: seen seen')
  case Nil
  then show ?case by simp
next
  case (Cons a xs)
  obtain x p where a: "a = (x, p)" by (cases a)
  from Cons.prems(2) have s: "set (x # seen') = insert c (set (x # seen))" by auto
  from Cons.prems(1) have r: "parents_first (x # seen') xs" by (simp add: a)
  from Cons.prems(3) have q: "\<forall>(x, p) \<in> set xs. truthy p \<longrightarrow> the p \<noteq> c" by simp
  have t: "parents_first (x # seen) xs"
    by (rule Cons.IH [OF r s q])
  from Cons.prems(1) have m: "truthy p \<longrightarrow> the p \<in> set seen'" by (simp add: a)
  from Cons.prems(3) have n: "truthy p \<longrightarrow> the p \<noteq> c" by (simp add: a)
  from m n Cons.prems(2) have "truthy p \<longrightarrow> the p \<in> set seen" by blast
  with t show ?case by (simp add: a)
qed

lemma truthy_Some: "truthy p \<Longrightarrow> p = Some (the p) \<and> the p \<noteq> []"
  by (cases p) (simp_all add: truthy_def)

lemma visit_order:
  "visit sc c st = (V', O') \<Longrightarrow>
   \<forall>c p. parent_of sc c = Some p \<longrightarrow> p \<noteq> [] \<longrightarrow> rank p < (rank c :: nat) \<Longrightarrow>
   \<exists>new. O' = snd st @ new \<and> set V' = set (fst st) \<union> set new \<and> c \<in> set V' \<and>
         (\<forall>x \<in> set new. rank x \<le> rank c) \<and>
         parents_first (fst st) (with_parent sc new)"
proof (induction sc c st arbitrary: V' O' rule: visit.induct)
  case (1 sc c visited order)
  note eq = "1.prems"(1) and rank = "1.prems"(2)
  show ?case
  proof (cases "c \<in> set visited")
    case True
    with eq have "V' = visited" "O' = order"
      by (simp_all add: visit.simps [of sc c visited order] del: visit.simps)
    with True show ?thesis
      by (intro exI [of _ "[]"]) (simp add: with_parent_def)
  next
    case False
    show ?thesis
    proof (cases "truthy (parent_of sc c)")
      case nt: False
      with False eq have "V' = c # visited" "O' = order @ [c]"
        by (simp_all add: visit.simps [of sc c visited order] Let_def del: visit.simps)
      with nt show ?thesis
        by (intro exI [of _ "[c]"]) (simp add: with_parent_def)
    next
      case t: True
      define p where "p = the (parent_of sc c)"
      from truthy_Some [OF t] have pc: "parent_of sc c = Some p" "p \<noteq> []"
        by (simp_all add: p_def)
      with rank have rp: "rank p < rank c" by blast
      obtain V1 O1 where inner: "visit sc p (c # visited, order) = (V1, O1)"
        by (cases "visit sc p (c # visited, order)")
      have "\<exists>new. O1 = snd (c # visited, order) @ new \<and>
              set V1 = set (fst (c # visited, order)) \<union> set new \<and> p \<in> set V1 \<and>
              (\<forall>x \<in> set new. rank x \<le> rank p) \<and>
              parents_first (fst (c # visited, order)) (with_parent sc new)"
        using "1.IH" [OF False refl t _ rank, of V1 O1] inner
        unfolding p_def by (simp del: visit.simps)
      then obtain n1 where n1: "O1 = order @ n1" "set V1 = set (c # visited) \<union> set n1"
        "p \<in> set V1" "\<forall>x \<in> set n1. rank x \<le> rank p"
        "parents_first (c # visited) (with_parent sc n1)"
        by auto
      have "visit sc c (visited, order) =
              (fst (visit sc p (c # visited, order)), snd (visit sc p (c # visited, order)) @ [c])"
        using False t
        by (simp add: visit.simps [of sc c visited order] Let_def p_def del: visit.simps)
      with inner eq have res: "V' = V1" "O' = O1 @ [c]"
        by (simp_all del: visit.simps)
      have "\<And>x q. (x, q) \<in> set (with_parent sc n1) \<Longrightarrow> truthy q \<Longrightarrow> the q \<noteq> c"
      proof -
        fix x q
        assume m: "(x, q) \<in> set (with_parent sc n1)" and tq: "truthy q"
        show "the q \<noteq> c"
        proof
          assume e: "the q = c"
          from m have x: "x \<in> set n1" and q0: "q = parent_of sc x"
            by (auto simp: with_parent_def)
          from truthy_Some [OF tq] e q0 have q: "parent_of sc x = Some c" "c \<noteq> []"
            by simp_all
          from rank q have "rank c < rank x" by blast
          moreover from n1(4) x have "rank x \<le> rank p" by blast
          ultimately show False using rp by simp
        qed
      qed
      then have noc: "\<forall>(x, q) \<in> set (with_parent sc n1). truthy q \<longrightarrow> the q \<noteq> c"
        by blast
      have a: "parents_first visited (with_parent sc n1)"
        by (rule parents_first_drop [OF n1(5) _ noc]) simp
      have "p \<noteq> c" using rp by auto
      with n1(2,3) have "p \<in> set (rev n1 @ visited)" by auto
      then have b: "parents_first (rev (map fst (with_parent sc n1)) @ visited)
                      (with_parent sc [c])"
        by (simp add: with_parent_def pc comp_def truthy_def)
      have "with_parent sc (n1 @ [c]) = with_parent sc n1 @ with_parent sc [c]"
        by (simp add: with_parent_def)
      with a b have pf: "parents_first visited (with_parent sc (n1 @ [c]))"
        by (simp add: parents_first_append)
      have rk: "\<forall>x \<in> set (n1 @ [c]). rank x \<le> rank c"
        using n1(4) rp by auto
      have o: "O' = order @ (n1 @ [c])"
        using res n1(1) by simp
      have v: "set V' = set visited \<union> set (n1 @ [c])"
        using res n1(2) by auto
      have cv: "c \<in> set V'"
        using res n1(2) by auto
      show ?thesis
        using o v cv rk pf
        by (intro exI [of _ "n1 @ [c]"]) simp
    qed
  qed
qed

lemma fold_visit_order:
  assumes rank: "\<forall>c p. parent_of sc c = Some p \<longrightarrow> p \<noteq> [] \<longrightarrow> rank p < (rank c :: nat)"
  shows "fold (visit sc) cs (V, out) = (V', O') \<Longrightarrow> set V = set out \<Longrightarrow>
         parents_first [] (with_parent sc out) \<Longrightarrow>
         set V' = set O' \<and> parents_first [] (with_parent sc O')"
proof (induction cs arbitrary: V out)
  case Nil
  then show ?case by simp
next
  case (Cons c cs)
  obtain V1 O1 where v: "visit sc c (V, out) = (V1, O1)"
    by (cases "visit sc c (V, out)")
  from visit_order [OF v rank] obtain new where new: "O1 = out @ new"
    "set V1 = set V \<union> set new" "parents_first V (with_parent sc new)"
    by auto
  have s: "set V1 = set O1"
    using new Cons.prems(2) by simp
  have "parents_first (rev (map fst (with_parent sc out)) @ []) (with_parent sc new)"
    using new(3) Cons.prems(2)
    by (simp add: with_parent_def comp_def parents_first_cong [of "rev out" V])
  with Cons.prems(3) have p: "parents_first [] (with_parent sc O1)"
    by (simp add: new(1) with_parent_def parents_first_append)
  from Cons.prems(1) v have "fold (visit sc) cs (V1, O1) = (V', O')"
    by (simp del: visit.simps)
  from Cons.IH [OF this s p] show ?case .
qed

lemma commit_order_parents_first:
  assumes "\<forall>c p. parent_of sc c = Some p \<longrightarrow> p \<noteq> [] \<longrightarrow> rank p < (rank c :: nat)"
  shows "parents_first [] (with_parent sc (commit_order sc))"
proof -
  obtain V' O' where f: "fold (visit sc) (map fst sc) ([], []) = (V', O')"
    by (cases "fold (visit sc) (map fst sc) ([], [])")
  from fold_visit_order [OF assms f] have "parents_first [] (with_parent sc O')"
    by (simp add: with_parent_def)
  with f show ?thesis
    by (simp add: commit_order_def)
qed


lemma update_absent: "k \<notin> fst ` set al \<Longrightarrow> AList.update k v al = al @ [(k, v)]"
  by (induction al) auto

lemma parent_missing_iff:
  "\<not> parent_missing ids p \<longleftrightarrow> (if truthy p then the p \<in> set ids else True)"
  by (simp add: parent_missing_def)

lemma pull_loop_graph_applied:
  "pull_loop_graph L ks kt sg order (fs, tg, ids, pulled, skipped) = (e, fs', tg', rest) \<Longrightarrow>
   set ids = fst ` set (commits tg) \<Longrightarrow>
   \<exists>added. commits tg' = commits tg @ added \<and> parents_first ids (parents_of added)"
proof (induction order arbitrary: fs tg ids pulled skipped)
  case Nil
  then show ?case
    by (intro exI [of _ "[]"]) (simp add: parents_of_def)
next
  case (Cons c order)
  show ?case
  proof (cases "c \<in> set ids")
    case True
    with Cons.prems(1) have
      "pull_loop_graph L ks kt sg order (fs, tg, ids, pulled, Suc skipped) = (e, fs', tg', rest)"
      by simp
    from Cons.IH [OF this Cons.prems(2)] show ?thesis .
  next
    case False
    show ?thesis
    proof (cases "map_of (commits sg) c")
      case None
      with False Cons.prems(1) have "tg' = tg" by simp
      then show ?thesis
        by (intro exI [of _ "[]"]) (simp add: parents_of_def)
    next
      case (Some cd)
      show ?thesis
      proof (cases "parent_missing ids (parent_id cd)")
        case True
        with False Some Cons.prems(1) have
          "pull_loop_graph L ks kt sg order (fs, tg, ids, pulled, skipped) = (e, fs', tg', rest)"
          by simp
        from Cons.IH [OF this Cons.prems(2)] show ?thesis .
      next
        case pm: False
        obtain r fs1 where cf: "copy_files L ks kt (files cd) fs = (r, fs1)"
          by (cases "copy_files L ks kt (files cd) fs")
        show ?thesis
        proof (cases r)
          case (Inl x)
          with False Some pm cf Cons.prems(1) have "tg' = tg" by simp
          then show ?thesis
            by (intro exI [of _ "[]"]) (simp add: parents_of_def)
        next
          case (Inr files_dict)
          define ncd where "ncd = \<lparr>message = message cd, author = author cd,
              timestamp = timestamp cd, parent_id = parent_id cd, files = files_dict\<rparr>"
          define tg1 where "tg1 = tg\<lparr>commits := AList.update c ncd (commits tg)\<rparr>"
          define tg2 where "tg2 = (case map_of (changes sg) c of None \<Rightarrow> tg1
              | Some chs \<Rightarrow> tg1\<lparr>changes := AList.update c chs (changes tg1)\<rparr>)"
          define tg3 where "tg3 = (if HEAD tg2 = None then advance_head tg2 c else tg2)"
          from False Cons.prems(2) have "c \<notin> fst ` set (commits tg)" by simp
          then have c3: "commits tg3 = commits tg @ [(c, ncd)]"
            by (simp add: tg3_def tg2_def tg1_def advance_head_def update_absent
                split: option.splits)
          have ids3: "set (c # ids) = fst ` set (commits tg3)"
            using Cons.prems(2) by (simp add: c3)
          have step: "pull_loop_graph L ks kt sg (c # order) (fs, tg, ids, pulled, skipped) =
              pull_loop_graph L ks kt sg order (fs1, tg3, c # ids, Suc pulled, skipped)"
            unfolding tg3_def tg2_def tg1_def ncd_def
            using False Some pm cf Inr by (simp add: Let_def)
          from Cons.prems(1) have
            "pull_loop_graph L ks kt sg order (fs1, tg3, c # ids, Suc pulled, skipped)
               = (e, fs', tg', rest)"
            by (simp only: step)
          from Cons.IH [OF this ids3] obtain added where
            a: "commits tg' = commits tg3 @ added" "parents_first (c # ids) (parents_of added)"
            by blast
          from pm have "if truthy (parent_id cd) then the (parent_id cd) \<in> set ids else True"
            by (simp add: parent_missing_iff)
          with a(2) have "parents_first ids (parents_of ((c, ncd) # added))"
            by (simp add: parents_of_def ncd_def)
          with a(1) c3 show ?thesis
            by (intro exI [of _ "(c, ncd) # added"]) simp
        qed
      qed
    qed
  qed
qed

lemma sql_insert_append: "sql_insert k v t = Inr t' \<Longrightarrow> t' = t @ [(k, v)]"
  by (simp add: sql_insert_def split: if_splits)

lemma pull_loop_sqlite_applied:
  "pull_loop_sqlite sdb rows (tdb, ids, pulled, skipped) = (e, tdb', rest) \<Longrightarrow>
   \<exists>added. commits_table tdb' = commits_table tdb @ added \<and>
           parents_first ids (parents_of added)"
proof (induction rows arbitrary: tdb ids pulled skipped)
  case Nil
  then show ?case
    by (intro exI [of _ "[]"]) (simp add: parents_of_def)
next
  case (Cons a rows)
  obtain c row where a: "a = (c, row)" by (cases a)
  show ?case
  proof (cases "c \<in> set ids \<or> parent_missing ids (parent_id row)")
    case True
    with Cons.prems a obtain sk where
      "pull_loop_sqlite sdb rows (tdb, ids, pulled, sk) = (e, tdb', rest)"
      by (auto split: if_splits)
    from Cons.IH [OF this] show ?thesis .
  next
    case False
    then have nin: "c \<notin> set ids" and pm: "\<not> parent_missing ids (parent_id row)"
      by simp_all
    show ?thesis
    proof (cases "\<exists>ct ft cht. sql_insert c row (commits_table tdb) = Inr ct \<and>
        insert_all (map (\<lambda>(p, v). ((c, p), v)) (rows_of (files_table sdb) c))
          (files_table tdb) = Inr ft \<and>
        insert_all (map (\<lambda>(p, v). ((c, p), v)) (rows_of (changes_table sdb) c))
          (changes_table tdb) = Inr cht")
      case False
      with nin pm Cons.prems a have "tdb' = tdb"
        by (auto split: sum.splits)
      then show ?thesis
        by (intro exI [of _ "[]"]) (simp add: parents_of_def)
    next
      case True
      then obtain ct ft cht where
        ct: "sql_insert c row (commits_table tdb) = Inr ct"
        and ft: "insert_all (map (\<lambda>(p, v). ((c, p), v)) (rows_of (files_table sdb) c))
          (files_table tdb) = Inr ft"
        and cht: "insert_all (map (\<lambda>(p, v). ((c, p), v)) (rows_of (changes_table sdb) c))
          (changes_table tdb) = Inr cht"
        by blast
      from nin pm ct ft cht Cons.prems a have
        "pull_loop_sqlite sdb rows
           (\<lparr>commits_table = ct, files_table = ft, changes_table = cht\<rparr>,
            c # ids, Suc pulled, skipped) = (e, tdb', rest)"
        by simp
      from Cons.IH [OF this] obtain added where
        ad: "commits_table tdb' = ct @ added" "parents_first (c # ids) (parents_of added)"
        by auto
      from pm have "if truthy (parent_id row) then the (parent_id row) \<in> set ids else True"
        by (simp add: parent_missing_iff)
      with ad(2) have "parents_first ids (parents_of ((c, row) # added))"
        by (simp add: parents_of_def)
      with ad(1) sql_insert_append [OF ct] show ?thesis
        by (intro exI [of _ "(c, row) # added"]) simp
    qed
  qed
qed

lemma pull_commits_graph_applied:
  assumes "pull_commits_graph L fs source_repo target_repo = (Inr res, fs')"
  shows "\<exists>tg' added. read_graph fs' (get_repo_path target_repo) = Some tg' \<and>
           commits tg' = commits (graph_or_empty fs (get_repo_path target_repo)) @ added \<and>
           parents_first (map fst (commits (graph_or_empty fs (get_repo_path target_repo))))
             (parents_of added)"
proof -
  define ks where "ks = get_repo_path source_repo"
  define kt where "kt = get_repo_path target_repo"
  from assms have v: "validate_repo_name source_repo" "validate_repo_name target_repo"
    by (auto simp: pull_commits_graph_def split: if_splits)
  from assms v obtain sg where sg: "read_graph fs ks = Some sg"
    by (auto simp: pull_commits_graph_def ks_def Let_def split: option.splits)
  define fs1 where "fs1 = (if read_graph fs kt = None
      then snd (create_repo_graph fs target_repo) else fs)"
  from assms v sg obtain tg where tg: "read_graph fs1 kt = Some tg"
    by (auto simp: pull_commits_graph_def ks_def [symmetric] kt_def [symmetric]
        fs1_def [symmetric] Let_def split: option.splits)
  have tg_eq: "tg = graph_or_empty fs kt"
  proof (cases "read_graph fs kt")
    case None
    with tg v show ?thesis
      by (auto simp: fs1_def create_repo_graph_def kt_def read_graph_def graph_or_empty_def
          new_repo_dir_def split: option.splits if_splits)
  next
    case (Some g)
    with tg show ?thesis
      by (simp add: fs1_def graph_or_empty_def)
  qed
  obtain e fs2 tg' rest where l:
    "pull_loop_graph L ks kt sg (commit_order (commits sg)) (fs1, tg, map fst (commits tg), 0, 0)
       = (e, fs2, tg', rest)"
    by (metis prod.collapse)
  obtain ids pulled skipped where rest: "rest = (ids, pulled, skipped)"
    by (cases rest)
  from assms v sg tg l rest have e: "e = None" and fs': "fs' = write_graph fs2 kt tg'"
    by (auto simp: pull_commits_graph_def ks_def [symmetric] kt_def [symmetric]
        fs1_def [symmetric] Let_def split: option.splits)
  have ex: "fs2 kt \<noteq> None"
  proof -
    from tg have "fs1 kt \<noteq> None"
      by (auto simp: read_graph_def split: option.splits)
    moreover have "\<And>order st e st'. pull_loop_graph L ks kt sg order st = (e, st') \<Longrightarrow>
        fst st kt \<noteq> None \<Longrightarrow> fst st' kt \<noteq> None"
    proof -
      fix order st e st'
      show "pull_loop_graph L ks kt sg order st = (e, st') \<Longrightarrow>
        fst st kt \<noteq> None \<Longrightarrow> fst st' kt \<noteq> None"
      proof (induction order arbitrary: st)
        case Nil
        then show ?case by auto
      next
        case (Cons c order)
        obtain f g i p s where st: "st = (f, g, i, p, s)" by (cases st)
        have cfk: "\<And>fl f r f'. copy_files L ks kt fl f = (r, f') \<Longrightarrow> f kt \<noteq> None \<Longrightarrow> f' kt \<noteq> None"
        proof -
          fix fl f r f'
          show "copy_files L ks kt fl f = (r, f') \<Longrightarrow> f kt \<noteq> None \<Longrightarrow> f' kt \<noteq> None"
          proof (induction fl arbitrary: f r)
            case Nil
            then show ?case by auto
          next
            case (Cons a fl)
            obtain pa h where a: "a = (pa, h)" by (cases a)
            from Cons.prems show ?case
              by (auto simp: a split: option.splits prod.splits sum.splits
                  dest!: Cons.IH)
          qed
        qed
        from Cons.prems show ?case
          by (auto simp: st Let_def split: option.splits prod.splits sum.splits if_splits
              dest!: Cons.IH dest: cfk)
      qed
    qed
    ultimately show ?thesis
      using l by fastforce
  qed
  from pull_loop_graph_applied [OF l] obtain added where
    "commits tg' = commits tg @ added" "parents_first (map fst (commits tg)) (parents_of added)"
    by auto
  moreover from ex have "read_graph fs' kt = Some tg'"
    by (auto simp: fs' write_graph_def read_graph_def split: option.splits)
  ultimately show ?thesis
    unfolding kt_def [symmetric] tg_eq [symmetric] by blast
qed

lemma pull_commits_sqlite_applied:
  assumes "pull_commits_sqlite fs source_repo target_repo = (Inr res, fs')"
  shows "\<exists>tdb' added. fs' (get_repo_path target_repo) = Some tdb' \<and>
           commits_table tdb' =
             commits_table (db_or_empty fs (get_repo_path target_repo)) @ added \<and>
           parents_first (map fst (commits_table (db_or_empty fs (get_repo_path target_repo))))
             (parents_of added)"
proof -
  define ks where "ks = get_repo_path source_repo"
  define kt where "kt = get_repo_path target_repo"
  from assms have v: "validate_repo_name source_repo" "validate_repo_name target_repo"
    by (auto simp: pull_commits_sqlite_def split: if_splits)
  from assms v obtain sdb where sdb: "fs ks = Some sdb"
    by (auto simp: pull_commits_sqlite_def ks_def Let_def split: option.splits)
  define fs1 where "fs1 = (if fs kt = None
      then snd (create_repo_sqlite fs target_repo) else fs)"
  have tdb: "fs1 kt = Some (db_or_empty fs kt)"
    using v by (auto simp: fs1_def create_repo_sqlite_def kt_def db_or_empty_def
        split: option.splits)
  obtain e tdb' rest where l:
    "pull_loop_sqlite sdb (source_commits_sqlite sdb)
       (db_or_empty fs kt, map fst (commits_table (db_or_empty fs kt)), 0, 0) = (e, tdb', rest)"
    by (metis prod.collapse)
  obtain ids pulled skipped where rest: "rest = (ids, pulled, skipped)"
    by (cases rest)
  from assms v sdb tdb l rest have fs': "fs' = fs1(kt \<mapsto> tdb')"
    by (auto simp: pull_commits_sqlite_def ks_def [symmetric] kt_def [symmetric]
        fs1_def [symmetric] Let_def split: option.splits)
  from pull_loop_sqlite_applied [OF l] obtain added where
    "commits_table tdb' = commits_table (db_or_empty fs kt) @ added"
    "parents_first (map fst (commits_table (db_or_empty fs kt))) (parents_of added)"
    by auto
  then show ?thesis
    unfolding kt_def [symmetric] by (auto simp: fs')
qed


text \<open>
  The order of a pull. In the graph backend \<open>pull_commits\<close> visits the ids in the
  order of a depth-first walk that emits a commit after its parent; when the parent
  links of the source have no cycle (a rank decreases along them), every commit of this
  order with a parent comes after that parent. In the SQLite backend the commits are
  visited by ascending timestamp. In both backends a pull that succeeds appends commits
  to those of the target, and each commit it appends has no parent, or a parent that
  was in the target before or was appended earlier: a commit whose parent is not yet in
  the target is skipped, never applied before its parent.
\<close>

lemma pull_order:
  "((\<forall>c p. parent_of (commits sg) c = Some p \<longrightarrow> p \<noteq> [] \<longrightarrow> rank p < (rank c :: nat)) \<longrightarrow>
      parents_first [] (with_parent (commits sg) (commit_order (commits sg)))) \<and>
   sorted (map (\<lambda>(cid, row). timestamp row) (source_commits_sqlite sdb)) \<and>
   set (source_commits_sqlite sdb) = set (commits_table sdb) \<and>
   (pull_commits_graph L fs source_repo target_repo = (Inr res, fs') \<longrightarrow>
      (\<exists>tg' added. read_graph fs' (get_repo_path target_repo) = Some tg' \<and>
           commits tg' = commits (graph_or_empty fs (get_repo_path target_repo)) @ added \<and>
           parents_first (map fst (commits (graph_or_empty fs (get_repo_path target_repo))))
             (parents_of added))) \<and>
   (pull_commits_sqlite sfs source_repo target_repo = (Inr res', sfs') \<longrightarrow>
      (\<exists>tdb' added. sfs' (get_repo_path target_repo) = Some tdb' \<and>
           commits_table tdb' =
             commits_table (db_or_empty sfs (get_repo_path target_repo)) @ added \<and>
           parents_first (map fst (commits_table (db_or_empty sfs (get_repo_path target_repo))))
             (parents_of added)))"
proof (intro conjI impI)
  assume "\<forall>c p. parent_of (commits sg) c = Some p \<longrightarrow> p \<noteq> [] \<longrightarrow> rank p < rank c"
  then show "parents_first [] (with_parent (commits sg) (commit_order (commits sg)))"
    by (rule commit_order_parents_first)
next
  have "map (\<lambda>(cid, row). timestamp row) (sort_key (\<lambda>(cid, row). timestamp row) (commits_table sdb))
      = map (\<lambda>x. (\<lambda>(cid, row). timestamp row) x) (sort_key (\<lambda>(cid, row). timestamp row) (commits_table sdb))"
    by simp
  then show "sorted (map (\<lambda>(cid, row). timestamp row) (source_commits_sqlite sdb))"
    unfolding source_commits_sqlite_def by (simp only: sorted_sort_key)
next
  show "set (source_commits_sqlite sdb) = set (commits_table sdb)"
    by (simp add: source_commits_sqlite_def)
next
  assume "pull_commits_graph L fs source_repo target_repo = (Inr res, fs')"
  then show "\<exists>tg' added. read_graph fs' (get_repo_path target_repo) = Some tg' \<and>
           commits tg' = commits (graph_or_empty fs (get_repo_path target_repo)) @ added \<and>
           parents_first (map fst (commits (graph_or_empty fs (get_repo_path target_repo))))
             (parents_of added)"
    by (rule pull_commits_graph_applied)
next
  assume "pull_commits_sqlite sfs source_repo target_repo = (Inr res', sfs')"
  then show "\<exists>tdb' added. sfs' (get_repo_path target_repo) = Some tdb' \<and>
           commits_table tdb' =
             commits_table (db_or_empty sfs (get_repo_path target_repo)) @ added \<and>
           parents_first (map fst (commits_table (db_or_empty sfs (get_repo_path target_repo))))
             (parents_of added)"
    by (rule pull_commits_sqlite_applied)
qed

lemma commit_order_ba: "commit_order commits_ba = [''A'', ''B'']"
  by (simp add: commit_order_def commits_ba_def parent_of_def truthy_def)

lemma pull_order_example:
  "map fst commits_ba = [''B'', ''A''] \<and>
   commit_order commits_ba = [''A'', ''B''] \<and>
   parents_first [] (with_parent commits_ba (commit_order commits_ba)) \<and>
   fst (pull_commits_graph example_lib graph_ab ''demo'' ''copy'') = Inr (2, 0) \<and>
   (\<exists>tg' added.
      read_graph (snd (pull_commits_graph example_lib graph_ab ''demo'' ''copy''))
        (get_repo_path ''copy'') = Some tg' \<and>
      commits tg' = commits (graph_or_empty graph_ab (get_repo_path ''copy'')) @ added \<and>
      parents_first (map fst (commits (graph_or_empty graph_ab (get_repo_path ''copy''))))
        (parents_of added)) \<and>
   fst (pull_commits_sqlite sqlite_ab ''demo'' ''copy'') = Inr (1, 0) \<and>
   (\<exists>tdb' added.
      snd (pull_commits_sqlite sqlite_ab ''demo'' ''copy'') (get_repo_path ''copy'') = Some tdb' \<and>
      commits_table tdb' = commits_table (db_or_empty sqlite_ab (get_repo_path ''copy'')) @ added \<and>
      parents_first (map fst (commits_table (db_or_empty sqlite_ab (get_repo_path ''copy''))))
        (parents_of added))"
proof -
  define rank :: "string \<Rightarrow> nat" where "rank = (\<lambda>c. if c = ''B'' then 1 else 0)"
  have r: "\<forall>c p. parent_of commits_ba c = Some p \<longrightarrow> p \<noteq> [] \<longrightarrow> rank p < rank c"
    by (simp add: parent_of_def commits_ba_def rank_def)
  have g: "pull_commits_graph example_lib graph_ab ''demo'' ''copy'' =
      (Inr (2, 0), snd (pull_commits_graph example_lib graph_ab ''demo'' ''copy''))"
    using pull_graph_eval by (metis prod.collapse)
  have s: "pull_commits_sqlite sqlite_ab ''demo'' ''copy'' =
      (Inr (1, 0), snd (pull_commits_sqlite sqlite_ab ''demo'' ''copy''))"
    using pull_sqlite_eval by (metis prod.collapse)
  have m: "map fst commits_ba = [''B'', ''A'']"
    by (simp add: commits_ba_def)
  from pull_order [of "\<lparr>commits = commits_ba, changes = [], branches = [], HEAD = None\<rparr>"
      rank sqlite_ab_db example_lib graph_ab "''demo''" "''copy''" "(2, 0)"
      "snd (pull_commits_graph example_lib graph_ab ''demo'' ''copy'')"
      sqlite_ab "(1, 0)" "snd (pull_commits_sqlite sqlite_ab ''demo'' ''copy'')"]
    r g s
  show ?thesis
    using m commit_order_ba pull_graph_eval pull_sqlite_eval by simp
qed

text \<open>
  C3 fails in the SQLite backend. The source holds \<open>A\<close> and its child \<open>B\<close>, pushed
  in this order, \<open>B\<close> with the earlier timestamp. The pull visits the commits by
  ascending timestamp: \<open>B\<close> before its parent \<open>A\<close>, which is no topological order
  (the depth-first walk of the graph backend emits \<open>A\<close> before \<open>B\<close>). \<open>B\<close> is
  skipped since its parent is not in the target yet and \<open>A\<close> is copied after it, so
  the pull into a new target answers with one commit pulled and leaves the target with
  one commit of the source's two.
\<close>

theorem pull_sqlite_child_first:
  "push_commit_sqlite example_lib Map.empty commit_a = (Inr (Pushed 1), [''demo'' \<mapsto> sqlite_a_db]) \<and>
   push_commit_sqlite example_lib [''demo'' \<mapsto> sqlite_a_db] commit_b =
     (Inr (Pushed 1), [''demo'' \<mapsto> sqlite_ab_db]) \<and>
   parent_of (commits_table sqlite_ab_db) ''B'' = Some ''A'' \<and>
   map fst (source_commits_sqlite sqlite_ab_db) = [''B'', ''A''] \<and>
   \<not> parents_first [] (with_parent (commits_table sqlite_ab_db)
         (map fst (source_commits_sqlite sqlite_ab_db))) \<and>
   commit_order commits_ba = [''A'', ''B''] \<and>
   pull_commits_sqlite [''demo'' \<mapsto> sqlite_ab_db] ''demo'' ''copy'' =
     (Inr (1, 0), [''demo'' \<mapsto> sqlite_ab_db, ''copy'' \<mapsto> sqlite_a_db]) \<and>
   map fst (commits_table sqlite_ab_db) = [''A'', ''B''] \<and>
   map fst (commits_table sqlite_a_db) = [''A'']"
proof -
  have p: "pull_commits_sqlite [''demo'' \<mapsto> sqlite_ab_db] ''demo'' ''copy'' =
     (Inr (1, 0), [''demo'' \<mapsto> sqlite_ab_db, ''copy'' \<mapsto> sqlite_a_db])"
    by (simp add: pull_commits_sqlite_def valid_demo valid_copy path_demo path_copy
        sqlite_ab_db_def sqlite_a_db_def create_repo_sqlite_def empty_db_def
        source_commits_sqlite_def parent_missing_def truthy_def sql_insert_def rows_of_def
        Let_def)
  show ?thesis
    using push_a_sqlite_eval push_b_sqlite_eval p commit_order_ba
    by (simp add: sqlite_a_def sqlite_ab_def source_commits_sqlite_def sqlite_ab_db_def
        sqlite_a_db_def parent_of_def with_parent_def truthy_def)
qed

theorem pull_sqlite_child_first_witness:
  "map fst (source_commits_sqlite sqlite_ab_db) = [''B'', ''A''] \<and>
   fst (pull_commits_sqlite [''demo'' \<mapsto> sqlite_ab_db] ''demo'' ''copy'') = Inr (1, 0) \<and>
   map_option (\<lambda>db. map fst (commits_table db))
     (snd (pull_commits_sqlite [''demo'' \<mapsto> sqlite_ab_db] ''demo'' ''copy'') ''copy'')
     = Some [''A'']"
  using pull_sqlite_child_first by simp

end
